theory Spec2Isabelle
  imports Complex_Main "HOL-Library.AList"
begin

section \<open>Errors\<close>

text \<open>
  The Python exceptions that the modelled functions can raise. A function that can raise
  returns \<open>py_error + 'a\<close>, with \<open>Inl\<close> for the exception.
\<close>

datatype py_error =
    IndexError
  | NameError
  | NotImplementedError
  | RuntimeError
  | ValueError
  | ZeroDivisionError
  | NumericalFault \<comment> \<open>no exception: a loss that is not a number\<close>

section \<open>Tensors and their storage\<close>

text \<open>
  A 1-D float tensor holds one number per environment replica. The numbers and their
  arithmetic are a parameter of the model. With \<open>exact_arithmetic\<close> they are the reals
  and every operation is exact: rounding, overflow and the values that are not numbers
  are left out. With \<open>float32_arithmetic\<close> they are the values of a 32-bit float,
  infinite ones and NaN included.
\<close>

record 'n arithmetic =
  ar_mul :: "'n \<Rightarrow> 'n \<Rightarrow> 'n"
  ar_add :: "'n \<Rightarrow> 'n \<Rightarrow> 'n"
  ar_sub :: "'n \<Rightarrow> 'n \<Rightarrow> 'n"
  ar_one :: 'n

definition exact_arithmetic :: "real arithmetic" where
  "exact_arithmetic = \<lparr>ar_mul = (*), ar_add = (+), ar_sub = (-), ar_one = 1\<rparr>"

text \<open>
  The values of a float: a finite number, plus or minus infinity, or NaN (the two zeros
  are one value). An operation on finite values rounds its exact result to a float, or
  to an infinity when it overflows: \<open>rnd\<close> is this rounding, a parameter. The other
  cases are those of IEEE 754: NaN propagates, zero times infinity and infinity minus
  infinity are NaN.
\<close>

datatype float32 = Finite real | PInf | NInf | NaN

definition signed_inf :: "real \<Rightarrow> float32" where
  \<comment> \<open>infinity times a finite value\<close>
  "signed_inf x = (if x = 0 then NaN else if 0 < x then PInf else NInf)"

definition fl_neg :: "float32 \<Rightarrow> float32" where
  "fl_neg a = (case a of Finite x \<Rightarrow> Finite (- x) | PInf \<Rightarrow> NInf | NInf \<Rightarrow> PInf | NaN \<Rightarrow> NaN)"

definition fl_mul :: "(real \<Rightarrow> float32) \<Rightarrow> float32 \<Rightarrow> float32 \<Rightarrow> float32" where
  "fl_mul rnd a b =
     (case a of
        NaN \<Rightarrow> NaN
      | Finite x \<Rightarrow>
          (case b of
             NaN \<Rightarrow> NaN
           | Finite y \<Rightarrow> rnd (x * y)
           | PInf \<Rightarrow> signed_inf x
           | NInf \<Rightarrow> signed_inf (- x))
      | PInf \<Rightarrow>
          (case b of NaN \<Rightarrow> NaN | Finite y \<Rightarrow> signed_inf y | PInf \<Rightarrow> PInf | NInf \<Rightarrow> NInf)
      | NInf \<Rightarrow>
          (case b of NaN \<Rightarrow> NaN | Finite y \<Rightarrow> signed_inf (- y) | PInf \<Rightarrow> NInf | NInf \<Rightarrow> PInf))"

definition fl_add :: "(real \<Rightarrow> float32) \<Rightarrow> float32 \<Rightarrow> float32 \<Rightarrow> float32" where
  "fl_add rnd a b =
     (case a of
        NaN \<Rightarrow> NaN
      | Finite x \<Rightarrow>
          (case b of NaN \<Rightarrow> NaN | Finite y \<Rightarrow> rnd (x + y) | PInf \<Rightarrow> PInf | NInf \<Rightarrow> NInf)
      | PInf \<Rightarrow> (case b of NaN \<Rightarrow> NaN | NInf \<Rightarrow> NaN | Finite y \<Rightarrow> PInf | PInf \<Rightarrow> PInf)
      | NInf \<Rightarrow> (case b of NaN \<Rightarrow> NaN | PInf \<Rightarrow> NaN | Finite y \<Rightarrow> NInf | NInf \<Rightarrow> NInf))"

definition float32_arithmetic :: "(real \<Rightarrow> float32) \<Rightarrow> float32 arithmetic" where
  "float32_arithmetic rnd =
     \<lparr>ar_mul = fl_mul rnd, ar_add = fl_add rnd,
      ar_sub = (\<lambda>a b. fl_add rnd a (fl_neg b)), ar_one = Finite 1\<rparr>"

text \<open>
  A rounding for the examples: a result of magnitude \<open>2\<^sup>1\<^sup>2\<^sup>8 - 2\<^sup>1\<^sup>0\<^sup>3\<close> or more (the
  largest float plus half the distance to its predecessor) overflows to an infinity,
  as rounding to nearest does; a result within the range is kept as it is.
\<close>

definition overflow_only :: "real \<Rightarrow> float32" where
  "overflow_only x =
     (if 2 ^ 128 - 2 ^ 103 \<le> x then PInf
      else if x \<le> - (2 ^ 128 - 2 ^ 103) then NInf
      else Finite x)"

text \<open>
  A torch tensor is a handle on a storage. \<open>r *= x\<close> multiplies the storage of \<open>r\<close> in
  place, and \<open>r.unsqueeze(1)\<close> returns a view: a new handle on the same storage. The
  store below is the list of all storages allocated so far; an address is an index
  into it. Unnamed temporaries (\<open>1 - done\<close>, \<open>discount * r\<close>) are never aliased and stay
  values.
\<close>

type_synonym tensor = "real list"
type_synonym addr = nat

definition rsub :: "'n arithmetic \<Rightarrow> 'n \<Rightarrow> 'n list \<Rightarrow> 'n list" where
  \<comment> \<open>\<open>c - x\<close>, a scalar minus a tensor\<close>
  "rsub ar c x = map (\<lambda>v. ar_sub ar c v) x"

definition smul :: "'n arithmetic \<Rightarrow> 'n \<Rightarrow> 'n list \<Rightarrow> 'n list" where
  \<comment> \<open>\<open>c * x\<close>, a scalar times a tensor\<close>
  "smul ar c x = map (\<lambda>v. ar_mul ar c v) x"

definition tmul :: "'n arithmetic \<Rightarrow> 'n list \<Rightarrow> 'n list \<Rightarrow> py_error + 'n list" where
  \<comment> \<open>\<open>x * y\<close> elementwise; tensors of different sizes are rejected\<close>
  "tmul ar x y =
     (if length x = length y then Inr (map2 (ar_mul ar) x y) else Inl RuntimeError)"

definition tadd :: "'n arithmetic \<Rightarrow> 'n list \<Rightarrow> 'n list \<Rightarrow> py_error + 'n list" where
  \<comment> \<open>\<open>x + y\<close> elementwise\<close>
  "tadd ar x y =
     (if length x = length y then Inr (map2 (ar_add ar) x y) else Inl RuntimeError)"

definition alloc :: "'n list list \<Rightarrow> 'n list \<Rightarrow> addr \<times> 'n list list" where
  \<comment> \<open>a fresh tensor: a new storage at the end of the store\<close>
  "alloc s v = (length s, s @ [v])"

definition imul :: "'n arithmetic \<Rightarrow> 'n list list \<Rightarrow> addr \<Rightarrow> 'n list \<Rightarrow> py_error + 'n list list" where
  \<comment> \<open>\<open>r *= x\<close>: the storage at \<open>r\<close> is overwritten; every handle on it sees the product\<close>
  "imul ar s r x =
     (case tmul ar (s ! r) x of Inl e \<Rightarrow> Inl e | Inr v \<Rightarrow> Inr (s[r := v]))"

definition unsqueeze :: "addr \<Rightarrow> addr" where
  \<comment> \<open>\<open>r.unsqueeze(1)\<close>: a view of shape \<open>[N, 1]\<close> on the storage of \<open>r\<close>\<close>
  "unsqueeze r = r"

section \<open>Observations and the agent\<close>

text \<open>
  An observation is a single array or a tuple of arrays (\<open>isinstance(ob, tuple)\<close>). The
  payload type \<open>'a\<close> is the array; \<open>torch.from_numpy\<close> and \<open>.cuda()\<close> keep the data, so
  arrays and tensors of observations share the type.
\<close>

datatype 'a observation = Single 'a | Composite "'a list"

text \<open>
  The fields that \<open>A2CAgent.__init__\<close> stores. The network \<open>_actor_critic\<close> is a
  collaborator: a function from the converted observation batch to the policy logits
  (one row per replica) and the value (one number per replica, the \<open>[N, 1]\<close> output
  squeezed).
\<close>

record 'a agent =
  rollout_num_steps :: int
  discount :: real
  ent_coef :: real
  val_coef :: real
  use_gpu :: bool
  actor_critic :: "'a observation \<Rightarrow> real list list \<times> tensor"

text \<open>
  A list comprehension whose body can raise: the first exception ends it.
\<close>

fun comprehension :: "('a \<Rightarrow> py_error + 'b) \<Rightarrow> 'a list \<Rightarrow> py_error + 'b list" where
  "comprehension f [] = Inr []"
| "comprehension f (x # xs) =
     (case f x of
        Inl e \<Rightarrow> Inl e
      | Inr y \<Rightarrow> (case comprehension f xs of Inl e \<Rightarrow> Inl e | Inr ys \<Rightarrow> Inr (y # ys)))"

text \<open>
  \<open>A2CAgent._ndarray_to_tensor\<close>. In the branch for a tuple without GPU the body of the
  comprehension is \<open>torch.from_numpy(o)\<close> while the loop variable is \<open>array\<close>: \<open>o\<close> is
  bound nowhere, so evaluating the body raises \<open>NameError\<close>.
  \<^verbatim>\<open>
    if isinstance(arrays, tuple):
        if self._use_gpu:
            return [torch.from_numpy(array).cuda() for array in arrays]
        else:
            return [torch.from_numpy(o) for array in arrays]
    else: ... return torch.from_numpy(arrays)[.cuda()]
  \<close>
\<close>

definition ndarray_to_tensor :: "bool \<Rightarrow> 'a observation \<Rightarrow> py_error + 'a observation" where
  "ndarray_to_tensor gpu arrays =
     (case arrays of
        Composite as \<Rightarrow>
          (if gpu then
             (case comprehension (\<lambda>array. Inr array) as of
                Inl e \<Rightarrow> Inl e | Inr ts \<Rightarrow> Inr (Composite ts))
           else
             (case comprehension (\<lambda>array. Inl NameError) as of
                Inl e \<Rightarrow> Inl e | Inr ts \<Rightarrow> Inr (Composite ts)))
      | Single a \<Rightarrow> Inr (Single a))"

section \<open>The return bootstrapper\<close>

text \<open>
  Lines 112 to 118 of \<open>A2CAgent._boostrap\<close>, from the value \<open>last_value\<close> of the critic:
  \<^verbatim>\<open>
    target_value = []
    r = last_value.data.squeeze() * (1 - done_mb[-1])
    for reward, done in reversed(zip(reward_mb, done_mb)):
        r *= 1 - done
        r = self._discount * r + reward
        target_value.append(r.unsqueeze(1))
    return target_value[::-1]
  \<close>
  The loop state is the store, the address of \<open>r\<close> and the list of the views appended so
  far. The caller reads the returned views afterwards, in the final store.
\<close>

fun boostrap_loop ::
  "'n arithmetic \<Rightarrow> 'n \<Rightarrow> ('n list \<times> 'n list) list \<Rightarrow> 'n list list \<Rightarrow> addr \<Rightarrow> addr list
     \<Rightarrow> py_error + ('n list list \<times> addr list)" where
  "boostrap_loop ar gamma [] s r target_value = Inr (s, target_value)"
| "boostrap_loop ar gamma ((reward, done) # rest) s r target_value =
     (case imul ar s r (rsub ar (ar_one ar) done) of
        Inl e \<Rightarrow> Inl e
      | Inr s1 \<Rightarrow>
         (case tadd ar (smul ar gamma (s1 ! r)) reward of
            Inl e \<Rightarrow> Inl e
          | Inr v \<Rightarrow>
             (case alloc s1 v of
                (r', s2) \<Rightarrow>
                  boostrap_loop ar gamma rest s2 r' (target_value @ [unsqueeze r']))))"

definition boostrap_targets ::
  "'n arithmetic \<Rightarrow> 'n \<Rightarrow> 'n list list \<Rightarrow> 'n list list \<Rightarrow> 'n list
     \<Rightarrow> py_error + 'n list list" where
  "boostrap_targets ar gamma reward_mb done_mb last_value =
     (if done_mb = [] then Inl IndexError
      else
        (case tmul ar last_value (rsub ar (ar_one ar) (last done_mb)) of
           Inl e \<Rightarrow> Inl e
         | Inr v \<Rightarrow>
            (case alloc [] v of
               (r, s) \<Rightarrow>
                 (case boostrap_loop ar gamma (rev (zip reward_mb done_mb)) s r [] of
                    Inl e \<Rightarrow> Inl e
                  | Inr (s', target_value) \<Rightarrow>
                      Inr (map (\<lambda>a. s' ! a) (rev target_value))))))"

text \<open>
  The whole of \<open>A2CAgent._boostrap\<close>: the last observation is converted, the critic
  gives \<open>last_value\<close>, then the loop above runs. The agent's numbers are reals, with the
  exact arithmetic.
\<close>

definition boostrap ::
  "'a agent \<Rightarrow> tensor list \<Rightarrow> tensor list \<Rightarrow> 'a observation \<Rightarrow> py_error + tensor list" where
  "boostrap ag reward_mb done_mb last_obs =
     (case ndarray_to_tensor (use_gpu ag) last_obs of
        Inl e \<Rightarrow> Inl e
      | Inr x \<Rightarrow>
          (case actor_critic ag x of
             (_, last_value) \<Rightarrow>
               boostrap_targets exact_arithmetic (discount ag) reward_mb done_mb last_value))"

text \<open>
  The same method when the tensors hold 32-bit floats, as \<open>torch.Tensor\<close> does: the
  discount, the network and the rounding of the arithmetic are given, the rewards, the
  done flags and the values of the critic are floats.
\<close>

definition boostrap_float32 ::
  "(real \<Rightarrow> float32) \<Rightarrow> bool \<Rightarrow> float32
     \<Rightarrow> ('a observation \<Rightarrow> float32 list list \<times> float32 list)
     \<Rightarrow> float32 list list \<Rightarrow> float32 list list \<Rightarrow> 'a observation
     \<Rightarrow> py_error + float32 list list" where
  "boostrap_float32 rnd gpu gamma net reward_mb done_mb last_obs =
     (case ndarray_to_tensor gpu last_obs of
        Inl e \<Rightarrow> Inl e
      | Inr x \<Rightarrow>
          (case net x of
             (_, last_value) \<Rightarrow>
               boostrap_targets (float32_arithmetic rnd) gamma reward_mb done_mb last_value))"

text \<open>
  The recursion in the words of the specification, for whole batches:
  \<open>R = V_T * (1 - d_{T-1})\<close>, then for \<open>t = T-1\<close> down to \<open>0\<close>:
  \<open>R = r_t + discount * R * (1 - d_t)\<close> and \<open>target[t] = R\<close>.
\<close>

definition spec_step :: "real \<Rightarrow> tensor \<Rightarrow> tensor \<Rightarrow> tensor \<Rightarrow> tensor" where
  "spec_step gamma reward done R =
     map (\<lambda>(rw, d, x). rw + gamma * x * (1 - d)) (zip reward (zip done R))"

fun spec_return :: "real \<Rightarrow> (tensor \<times> tensor) list \<Rightarrow> tensor \<Rightarrow> tensor" where
  "spec_return gamma [] R = R"
| "spec_return gamma ((reward, done) # rest) R =
     spec_step gamma reward done (spec_return gamma rest R)"

fun spec_targets_from :: "real \<Rightarrow> (tensor \<times> tensor) list \<Rightarrow> tensor \<Rightarrow> tensor list" where
  "spec_targets_from gamma [] R = []"
| "spec_targets_from gamma (x # rest) R =
     spec_return gamma (x # rest) R # spec_targets_from gamma rest R"

definition spec_targets ::
  "real \<Rightarrow> tensor list \<Rightarrow> tensor list \<Rightarrow> tensor \<Rightarrow> tensor list" where
  "spec_targets gamma reward_mb done_mb V_T =
     spec_targets_from gamma (zip reward_mb done_mb)
       (map2 (*) V_T (rsub exact_arithmetic 1 (last done_mb)))"

subsection \<open>The storages the loop leaves behind\<close>

text \<open>
  \<open>loop_next\<close> is the value of \<open>r\<close> after one pass of the loop body, from the value \<open>v\<close>
  that the storage of \<open>r\<close> held before. \<open>loop_cells\<close> lists what the storages allocated
  by the loop hold when it ends: the storage allocated in one pass is multiplied again,
  in place, by the next pass.
\<close>

definition loop_next :: "'n arithmetic \<Rightarrow> 'n \<Rightarrow> 'n list \<Rightarrow> 'n list \<Rightarrow> 'n list \<Rightarrow> 'n list" where
  "loop_next ar gamma reward done v =
     map2 (ar_add ar) (smul ar gamma (map2 (ar_mul ar) v (rsub ar (ar_one ar) done))) reward"

fun loop_cells ::
  "'n arithmetic \<Rightarrow> 'n \<Rightarrow> ('n list \<times> 'n list) list \<Rightarrow> 'n list \<Rightarrow> 'n list list" where
  "loop_cells ar gamma [] v = []"
| "loop_cells ar gamma ((reward, done) # rest) v =
     (case rest of
        [] \<Rightarrow> loop_next ar gamma reward done v
      | (reward', done') # _ \<Rightarrow>
          map2 (ar_mul ar) (loop_next ar gamma reward done v) (rsub ar (ar_one ar) done'))
     # loop_cells ar gamma rest (loop_next ar gamma reward done v)"

text \<open>
  \<open>loop_value\<close> is the value of \<open>r\<close> when the loop has run through the given steps, and
  \<open>carried\<close> the value of \<open>r\<close> when the pass for step \<open>t\<close> begins: what the steps after
  \<open>t\<close> and the critic carry into step \<open>t\<close>.
\<close>

fun loop_value ::
  "'n arithmetic \<Rightarrow> 'n \<Rightarrow> ('n list \<times> 'n list) list \<Rightarrow> 'n list \<Rightarrow> 'n list" where
  "loop_value ar gamma [] v = v"
| "loop_value ar gamma ((reward, done) # rest) v =
     loop_value ar gamma rest (loop_next ar gamma reward done v)"

definition carried ::
  "'n arithmetic \<Rightarrow> 'n \<Rightarrow> 'n list list \<Rightarrow> 'n list list \<Rightarrow> 'n list \<Rightarrow> nat \<Rightarrow> 'n list" where
  "carried ar gamma reward_mb done_mb last_value t =
     loop_value ar gamma (rev (drop (Suc t) (zip reward_mb done_mb)))
       (map2 (ar_mul ar) last_value (rsub ar (ar_one ar) (last done_mb)))"

text \<open>Every reward and done batch of a rollout has one entry per replica.\<close>

definition shaped :: "nat \<Rightarrow> ('n list \<times> 'n list) list \<Rightarrow> bool" where
  "shaped n steps = list_all (\<lambda>(reward, done). length reward = n \<and> length done = n) steps"

text \<open>
  Two runs at the same step: the same done batch; \<open>same_at\<close> adds that the rewards of
  replica \<open>i\<close> are equal.
\<close>

definition same_run :: "nat \<Rightarrow> 'n list \<times> 'n list \<Rightarrow> 'n list \<times> 'n list \<Rightarrow> bool" where
  "same_run n x y =
     (snd x = snd y \<and> length (fst x) = n \<and> length (fst y) = n \<and> length (snd x) = n)"

definition same_at :: "nat \<Rightarrow> nat \<Rightarrow> 'n list \<times> 'n list \<Rightarrow> 'n list \<times> 'n list \<Rightarrow> bool" where
  "same_at n i x y = (same_run n x y \<and> fst x ! i = fst y ! i)"

definition is_finite :: "float32 \<Rightarrow> bool" where
  "is_finite a = (case a of Finite x \<Rightarrow> True | _ \<Rightarrow> False)"

section \<open>Acting and collecting a rollout\<close>

text \<open>
  \<open>F.softmax(x, 1)\<close> and \<open>F.log_softmax(x, 1)\<close> work on each row of the logits.
\<close>

definition softmax :: "real list \<Rightarrow> real list" where
  "softmax x = map (\<lambda>v. exp v / sum_list (map exp x)) x"

definition log_softmax :: "real list \<Rightarrow> real list" where
  "log_softmax x = map (\<lambda>v. v - ln (sum_list (map exp x))) x"

text \<open>
  \<open>A2CAgent._sample_action\<close>: \<open>F.softmax(Variable(logit), 1).multinomial(1).data\<close>. The
  draw uses torch's random generator; \<open>multinomial\<close> is the draw as a function of the
  generator state \<open>g\<close> and the probabilities, one action index per row.
\<close>

definition sample_action ::
  "('g \<Rightarrow> real list list \<Rightarrow> nat list \<times> 'g) \<Rightarrow> 'g \<Rightarrow> real list list \<Rightarrow> nat list \<times> 'g" where
  "sample_action multinomial g logit = multinomial g (map softmax logit)"

text \<open>
  \<open>A2CAgent.step\<close>. For a tuple the generator's body is \<open>np.expand_dims(ob, 0)\<close>, applied
  to the whole tuple once per field; \<open>expand_tuple\<close> is numpy's answer on a tuple (it
  may raise), \<open>expand_dims\<close> its answer on one array.
  \<^verbatim>\<open>
    if isinstance(ob, tuple):
        ob = tuple(np.expand_dims(ob, 0) for o in ob)
    else:
        ob = np.expand_dims(ob, 0)
    ob = self._ndarray_to_tensor(ob)
    prob_logit, _ = self._actor_critic(...)
    action = self._sample_action(prob_logit.data)
    return action.numpy() ...
  \<close>
\<close>

definition step ::
  "'a agent \<Rightarrow> ('a list \<Rightarrow> py_error + 'a) \<Rightarrow> ('a \<Rightarrow> 'a)
     \<Rightarrow> ('g \<Rightarrow> real list list \<Rightarrow> nat list \<times> 'g) \<Rightarrow> 'g \<Rightarrow> 'a observation
     \<Rightarrow> py_error + (nat list \<times> 'g)" where
  "step ag expand_tuple expand_dims multinomial g ob =
     (case (case ob of
              Composite parts \<Rightarrow>
                (case comprehension (\<lambda>_. expand_tuple parts) parts of
                   Inl e \<Rightarrow> Inl e | Inr xs \<Rightarrow> Inr (Composite xs))
            | Single a \<Rightarrow> Inr (Single (expand_dims a))) of
        Inl e \<Rightarrow> Inl e
      | Inr ob1 \<Rightarrow>
          (case ndarray_to_tensor (use_gpu ag) ob1 of
             Inl e \<Rightarrow> Inl e
           | Inr x \<Rightarrow>
               (case actor_critic ag x of
                  (prob_logit, _) \<Rightarrow> Inr (sample_action multinomial g prob_logit))))"

text \<open>
  \<open>A2CAgent._rollout\<close>. \<open>envs_step\<close> is \<open>envs.step\<close> on the state \<open>e\<close> of the
  environments: it answers the batched observation, the rewards, the done flags and
  the infos. \<open>xrange(n)\<close> runs \<open>nat n\<close> passes. The done flags become floats
  (\<open>torch.Tensor(done.tolist())\<close>).
  \<^verbatim>\<open>
    obs_mb, action_mb, reward_mb, done_mb = [], [], [], []
    for _ in xrange(self._rollout_num_steps):
        obs = self._ndarray_to_tensor(obs)
        prob_logit, _ = self._actor_critic(...)
        action = self._sample_action(prob_logit.data)
        obs_mb.append(obs)
        action_mb.append(action)
        obs, reward, done, _ = envs.step(action.numpy() ...)
        reward_mb.append(torch.Tensor(reward) ...)
        done_mb.append(torch.Tensor(done.tolist()) ...)
    target_value_mb = self._boostrap(reward_mb, done_mb, obs)
    return obs_mb, action_mb, target_value_mb,  obs
  \<close>
\<close>

definition done_tensor :: "bool list \<Rightarrow> tensor" where
  "done_tensor done = map (\<lambda>b. if b then 1 else 0) done"

text \<open>
  The loop state: the environments, the generator, the current observation and the four
  buffers \<open>obs_mb\<close>, \<open>action_mb\<close>, \<open>reward_mb\<close>, \<open>done_mb\<close>.
\<close>

type_synonym ('a, 'e, 'g) rollout_state =
  "'e \<times> 'g \<times> 'a observation \<times> 'a observation list \<times> nat list list \<times> tensor list \<times> tensor list"

fun rollout_loop ::
  "'a agent \<Rightarrow> ('g \<Rightarrow> real list list \<Rightarrow> nat list \<times> 'g)
     \<Rightarrow> ('e \<Rightarrow> nat list \<Rightarrow> ('a observation \<times> tensor \<times> bool list \<times> 'i) \<times> 'e)
     \<Rightarrow> nat \<Rightarrow> ('a, 'e, 'g) rollout_state \<Rightarrow> py_error + ('a, 'e, 'g) rollout_state" where
  "rollout_loop ag multinomial envs_step 0 st = Inr st"
| "rollout_loop ag multinomial envs_step (Suc k)
     (e, g, ob, obs_mb, action_mb, reward_mb, done_mb) =
     (case ndarray_to_tensor (use_gpu ag) ob of
        Inl err \<Rightarrow> Inl err
      | Inr x \<Rightarrow>
          (case actor_critic ag x of
             (prob_logit, _) \<Rightarrow>
               (case sample_action multinomial g prob_logit of
                  (action, g') \<Rightarrow>
                    (case envs_step e action of
                       ((ob', reward, done, _), e') \<Rightarrow>
                         rollout_loop ag multinomial envs_step k
                           (e', g', ob', obs_mb @ [x], action_mb @ [action],
                            reward_mb @ [reward], done_mb @ [done_tensor done])))))"

definition rollout ::
  "'a agent \<Rightarrow> ('g \<Rightarrow> real list list \<Rightarrow> nat list \<times> 'g)
     \<Rightarrow> ('e \<Rightarrow> nat list \<Rightarrow> ('a observation \<times> tensor \<times> bool list \<times> 'i) \<times> 'e)
     \<Rightarrow> 'e \<Rightarrow> 'g \<Rightarrow> 'a observation
     \<Rightarrow> py_error + ('a observation list \<times> nat list list \<times> tensor list \<times> 'a observation
                       \<times> 'e \<times> 'g)" where
  "rollout ag multinomial envs_step e g ob =
     (case rollout_loop ag multinomial envs_step (nat (rollout_num_steps ag))
             (e, g, ob, [], [], [], []) of
        Inl err \<Rightarrow> Inl err
      | Inr (e', g', ob', obs_mb, action_mb, reward_mb, done_mb) \<Rightarrow>
          (case boostrap ag reward_mb done_mb ob' of
             Inl err \<Rightarrow> Inl err
           | Inr target_value_mb \<Rightarrow>
               Inr (obs_mb, action_mb, target_value_mb, ob', e', g')))"

text \<open>
  The rollout in the words of the specification (4.4): for each of the \<open>n\<close> steps, query
  the model on the current observation, sample one action per environment, call the
  manager's step, record the transition (observation, action, reward, done) and go on
  from the next observation.
\<close>

fun spec_transitions ::
  "'a agent \<Rightarrow> ('g \<Rightarrow> real list list \<Rightarrow> nat list \<times> 'g)
     \<Rightarrow> ('e \<Rightarrow> nat list \<Rightarrow> ('a observation \<times> tensor \<times> bool list \<times> 'i) \<times> 'e)
     \<Rightarrow> nat \<Rightarrow> 'e \<Rightarrow> 'g \<Rightarrow> 'a observation
     \<Rightarrow> py_error + ('a observation \<times> nat list \<times> tensor \<times> bool list) list" where
  "spec_transitions ag multinomial envs_step 0 e g ob = Inr []"
| "spec_transitions ag multinomial envs_step (Suc k) e g ob =
     (case ndarray_to_tensor (use_gpu ag) ob of
        Inl err \<Rightarrow> Inl err
      | Inr x \<Rightarrow>
          (let action = fst (sample_action multinomial g (fst (actor_critic ag x)));
               g' = snd (sample_action multinomial g (fst (actor_critic ag x)));
               reply = fst (envs_step e action);
               e' = snd (envs_step e action)
           in (case spec_transitions ag multinomial envs_step k e' g' (fst reply) of
                 Inl err \<Rightarrow> Inl err
               | Inr rest \<Rightarrow>
                   Inr ((x, action, fst (snd reply), fst (snd (snd reply))) # rest))))"

section \<open>The loss of the update\<close>

text \<open>
  Lines 90 to 101 of \<open>A2CAgent._update\<close>, on the values that the network gave for the
  batch: the logits (one row per entry), the values, and with them the concatenated
  targets and actions. \<open>Variable(advantage.data)\<close> has the values of \<open>advantage\<close> (it
  only cuts the gradient, which a model of values does not have).
  \<^verbatim>\<open>
    log_prob = F.log_softmax(prob_logit, 1)
    prob = F.softmax(prob_logit, 1)
    entropy = -(log_prob * prob).sum(1)
    advantage = Variable(torch.cat(target_value_mb)) - value
    action = Variable(torch.cat(action_mb))
    value_loss = advantage.pow(2).mean() * 0.5
    policy_loss = - (log_prob.gather(1, action) * Variable(advantage.data)).mean()
    entropy_loss = entropy.mean()
    loss = policy_loss + self._val_coef * value_loss + self._ent_coef * entropy_loss
  \<close>
  The mean of no number is not a number.
\<close>

definition mean :: "real list \<Rightarrow> py_error + real" where
  "mean xs = (if xs = [] then Inl NumericalFault else Inr (sum_list xs / real (length xs)))"

definition tsub :: "tensor \<Rightarrow> tensor \<Rightarrow> py_error + tensor" where
  \<comment> \<open>\<open>x - y\<close> elementwise\<close>
  "tsub x y = (if length x = length y then Inr (map2 (-) x y) else Inl RuntimeError)"

definition gather :: "real list list \<Rightarrow> nat list \<Rightarrow> py_error + tensor" where
  \<comment> \<open>\<open>x.gather(1, index)\<close>: of each row the entry at the row's index\<close>
  "gather x index =
     (if length x = length index then
        comprehension (\<lambda>(row, a). if a < length row then Inr (row ! a) else Inl RuntimeError)
          (zip x index)
      else Inl RuntimeError)"

definition update_loss ::
  "'a agent \<Rightarrow> real list list \<Rightarrow> tensor \<Rightarrow> tensor \<Rightarrow> nat list \<Rightarrow> py_error + real" where
  "update_loss ag prob_logit value target_value action =
     (let log_prob = map log_softmax prob_logit;
          prob = map softmax prob_logit;
          entropy = map2 (\<lambda>lp p. - sum_list (map2 (*) lp p)) log_prob prob
      in case tsub target_value value of
           Inl e \<Rightarrow> Inl e
         | Inr advantage \<Rightarrow>
             (case mean (map (\<lambda>a. a ^ 2) advantage) of
                Inl e \<Rightarrow> Inl e
              | Inr m \<Rightarrow>
                  (let value_loss = m * (1 / 2) in
                   case gather log_prob action of
                     Inl e \<Rightarrow> Inl e
                   | Inr chosen \<Rightarrow>
                       (case tmul exact_arithmetic chosen advantage of
                          Inl e \<Rightarrow> Inl e
                        | Inr weighted \<Rightarrow>
                            (case mean weighted of
                               Inl e \<Rightarrow> Inl e
                             | Inr pm \<Rightarrow>
                                 (let policy_loss = - pm in
                                  case mean entropy of
                                    Inl e \<Rightarrow> Inl e
                                  | Inr entropy_loss \<Rightarrow>
                                      Inr (policy_loss + val_coef ag * value_loss
                                           + ent_coef ag * entropy_loss)))))))"

text \<open>
  The three terms in the words of the specification (4.6), for a batch of \<open>B\<close> entries:
  the Shannon entropy of a distribution \<open>p\<close> is \<open>- \<Sum>a. p a * ln (p a)\<close>, the entropy
  term its mean over the batch for \<open>p = softmax(logits)\<close>; the value loss is
  \<open>0.5 * mean((target - value)\<^sup>2)\<close>; the policy loss is minus the mean of the log-probability
  of the recorded action times the advantage.
\<close>

definition shannon_entropy :: "real list \<Rightarrow> real" where
  "shannon_entropy p = - (\<Sum>a<length p. p ! a * ln (p ! a))"

definition spec_entropy_term :: "real list list \<Rightarrow> real" where
  "spec_entropy_term logits =
     (\<Sum>b<length logits. shannon_entropy (softmax (logits ! b))) / real (length logits)"

definition spec_value_loss :: "tensor \<Rightarrow> tensor \<Rightarrow> real" where
  "spec_value_loss target value =
     (1 / 2) * ((\<Sum>b<length value. (target ! b - value ! b) ^ 2) / real (length value))"

definition spec_policy_loss :: "real list list \<Rightarrow> tensor \<Rightarrow> tensor \<Rightarrow> nat list \<Rightarrow> real" where
  "spec_policy_loss logits target value action =
     - ((\<Sum>b<length logits. ln (softmax (logits ! b) ! (action ! b)) * (target ! b - value ! b))
        / real (length logits))"

section \<open>The environment worker\<close>

text \<open>
  The wrapped gym environment is a collaborator: its operations are functions on its
  state \<open>'s\<close>. \<open>action_space\<close> and \<open>observation_space\<close> are attributes. Exceptions
  raised inside the environment are not modelled.
\<close>

record ('s, 'd, 'ob, 'info, 'sp) env =
  env_step :: "'s \<Rightarrow> 'd \<Rightarrow> ('ob \<times> real \<times> bool \<times> 'info) \<times> 's"
  env_reset :: "'s \<Rightarrow> 'ob \<times> 's"
  env_close :: "'s \<Rightarrow> 's"
  action_space :: "'s \<Rightarrow> 'sp"
  observation_space :: "'s \<Rightarrow> 'sp"

text \<open>
  What a worker sends back: the tuple of a step, the observation of a reset, or the pair
  of spaces. A message to the worker is a pair of the command tag and the data.
\<close>

datatype ('ob, 'info, 'sp) reply =
    StepReply 'ob real bool 'info
  | ResetReply 'ob
  | SpacesReply 'sp 'sp

text \<open>
  One pass of the loop of \<open>worker\<close>, after \<open>cmd, data = pipe.recv()\<close>: the worker goes on
  with a new environment state and one reply sent, or leaves the loop after
  \<open>env.close()\<close>, or raises.
  \<^verbatim>\<open>
    if cmd == 'step':
        ob, reward, done, info = env.step(data)
        if done: ob = env.reset()
        pipe.send((ob, reward, done, info))
    elif cmd == 'reset':
        ob = env.reset()
        pipe.send(ob)
    elif cmd == 'close':
        env.close()
        break
    elif cmd == 'get_spaces':
        pipe.send((env.action_space, env.observation_space))
    else:
        raise NotImplementedError
  \<close>
\<close>

datatype ('s, 'r) outcome = Running 's 'r | Terminated 's | Crashed py_error

definition worker_dispatch ::
  "('s, 'd, 'ob, 'info, 'sp) env \<Rightarrow> 's \<Rightarrow> string \<times> 'd
     \<Rightarrow> ('s, ('ob, 'info, 'sp) reply) outcome" where
  "worker_dispatch env s msg =
     (case msg of
        (cmd, data) \<Rightarrow>
          if cmd = ''step'' then
            (case env_step env s data of
               ((ob, reward, done, info), s1) \<Rightarrow>
                 if done then
                   (case env_reset env s1 of
                      (ob', s2) \<Rightarrow> Running s2 (StepReply ob' reward done info))
                 else Running s1 (StepReply ob reward done info))
          else if cmd = ''reset'' then
            (case env_reset env s of (ob, s1) \<Rightarrow> Running s1 (ResetReply ob))
          else if cmd = ''close'' then Terminated (env_close env s)
          else if cmd = ''get_spaces'' then
            Running s (SpacesReply (action_space env s) (observation_space env s))
          else Crashed NotImplementedError)"

text \<open>
  The loop \<open>while True\<close> of \<open>worker\<close>, on the messages that arrive on the pipe, with the
  replies sent so far. When no message is left the worker waits in \<open>pipe.recv()\<close>.
\<close>

datatype 's worker_state = Waiting 's | Closed 's | Raised py_error

fun worker ::
  "('s, 'd, 'ob, 'info, 'sp) env \<Rightarrow> 's \<Rightarrow> (string \<times> 'd) list \<Rightarrow> ('ob, 'info, 'sp) reply list
     \<Rightarrow> 's worker_state \<times> ('ob, 'info, 'sp) reply list" where
  "worker env s [] sent = (Waiting s, sent)"
| "worker env s (msg # msgs) sent =
     (case worker_dispatch env s msg of
        Running s' r \<Rightarrow> worker env s' msgs (sent @ [r])
      | Terminated s' \<Rightarrow> (Closed s', sent)
      | Crashed e \<Rightarrow> (Raised e, sent))"

definition serviced :: "string \<times> 'd \<Rightarrow> bool" where
  \<comment> \<open>the commands after which the worker stays in its loop\<close>
  "serviced msg = (fst msg = ''step'' \<or> fst msg = ''reset'' \<or> fst msg = ''get_spaces'')"

section \<open>The parallel environment wrapper\<close>

text \<open>
  Arrays as numpy has them, by nesting: a number or a row of arrays. \<open>np.stack\<close> puts
  arrays of one shape into a new array, in the order of the list; it raises
  \<open>ValueError\<close> for no array or for different shapes.
\<close>

datatype ndarray = Num real | Arr "ndarray list"

fun shape :: "ndarray \<Rightarrow> nat list" where
  "shape (Num v) = []"
| "shape (Arr []) = [0]"
| "shape (Arr (x # xs)) = Suc (length xs) # shape x"

definition np_stack :: "ndarray list \<Rightarrow> py_error + ndarray" where
  "np_stack arrays =
     (if arrays = [] then Inl ValueError
      else if list_all (\<lambda>x. shape x = shape (hd arrays)) arrays then Inr (Arr arrays)
      else Inl ValueError)"

text \<open>
  \<open>ob[c]\<close>: field \<open>c\<close> of a tuple, or row \<open>c\<close> of an array.
\<close>

definition item :: "ndarray observation \<Rightarrow> nat \<Rightarrow> py_error + ndarray" where
  "item ob c =
     (case ob of
        Composite parts \<Rightarrow> if c < length parts then Inr (parts ! c) else Inl IndexError
      | Single (Arr rows) \<Rightarrow> if c < length rows then Inr (rows ! c) else Inl IndexError
      | Single (Num v) \<Rightarrow> Inl IndexError)"

text \<open>
  What \<open>np.stack\<close> makes of one element of its argument: an array is taken as it is, a
  tuple of arrays of one shape becomes the array of its fields (numpy rejects a ragged
  tuple).
\<close>

definition asanyarray :: "ndarray observation \<Rightarrow> py_error + ndarray" where
  "asanyarray ob =
     (case ob of
        Single a \<Rightarrow> Inr a
      | Composite parts \<Rightarrow> if parts = [] then Inr (Arr []) else np_stack parts)"

text \<open>
  The batching of the observations in \<open>_step\<close> and \<open>_reset\<close>:
  \<^verbatim>\<open>
    if isinstance(obs[0], tuple):
        n = len(obs[0])
        obs = tuple(np.stack([ob[c] for ob in obs]) for c in xrange(n))
    else:
        obs = np.stack(obs)
  \<close>
\<close>

definition stack_obs :: "ndarray observation list \<Rightarrow> py_error + ndarray observation" where
  "stack_obs obs =
     (case obs of
        [] \<Rightarrow> Inl IndexError
      | Composite parts # _ \<Rightarrow>
          (case comprehension
                  (\<lambda>c. case comprehension (\<lambda>ob. item ob c) obs of
                          Inl e \<Rightarrow> Inl e
                        | Inr column \<Rightarrow> np_stack column)
                  [0 ..< length parts] of
             Inl e \<Rightarrow> Inl e
           | Inr columns \<Rightarrow> Inr (Composite columns))
      | Single a # _ \<Rightarrow>
          (case comprehension asanyarray obs of
             Inl e \<Rightarrow> Inl e
           | Inr arrays \<Rightarrow>
               (case np_stack arrays of Inl e \<Rightarrow> Inl e | Inr b \<Rightarrow> Inr (Single b))))"

text \<open>
  A worker process as the wrapper sees it: the state of its loop and the two
  directions of its pipe, the messages not yet read by the worker and the replies not
  yet read by the wrapper. When the process is scheduled it reads all the messages that
  are there (\<open>worker\<close> above) and then waits.
\<close>

record ('s, 'd, 'ob, 'info, 'sp) process =
  environment :: "('s, 'd, 'ob, 'info, 'sp) env"
  state :: "'s worker_state"
  inbox :: "(string \<times> 'd) list"
  outbox :: "('ob, 'info, 'sp) reply list"

definition run_process ::
  "('s, 'd, 'ob, 'info, 'sp) process \<Rightarrow> ('s, 'd, 'ob, 'info, 'sp) process" where
  "run_process p =
     (case state p of
        Waiting s \<Rightarrow>
          (case worker (environment p) s (inbox p) [] of
             (st, sent) \<Rightarrow> p\<lparr>state := st, inbox := [], outbox := outbox p @ sent\<rparr>)
      | Closed s \<Rightarrow> p
      | Raised e \<Rightarrow> p)"

text \<open>
  The order in which the workers get to run, and so the order in which their replies
  arrive, is a list of worker indices.
\<close>

fun run_schedule ::
  "nat list \<Rightarrow> ('s, 'd, 'ob, 'info, 'sp) process list
     \<Rightarrow> ('s, 'd, 'ob, 'info, 'sp) process list" where
  "run_schedule [] ps = ps"
| "run_schedule (i # schedule) ps =
     run_schedule schedule (if i < length ps then ps[i := run_process (ps ! i)] else ps)"

text \<open>
  \<open>for pipe, action in zip(self._pipes, actions): pipe.send(('step', action))\<close>
\<close>

fun send_steps ::
  "('s, 'd, 'ob, 'info, 'sp) process list \<Rightarrow> 'd list
     \<Rightarrow> ('s, 'd, 'ob, 'info, 'sp) process list" where
  "send_steps (p # ps) (action # actions) =
     p\<lparr>inbox := inbox p @ [(''step'', action)]\<rparr> # send_steps ps actions"
| "send_steps ps actions = ps"

text \<open>
  \<open>results = [pipe.recv() for pipe in self._pipes]\<close>: the pipes are read in their
  order; a \<open>recv\<close> on a pipe with no reply waits, and then \<open>_step\<close> does not return
  (\<open>None\<close>).
\<close>

fun recv_all ::
  "('s, 'd, 'ob, 'info, 'sp) process list
     \<Rightarrow> (('ob, 'info, 'sp) reply list \<times> ('s, 'd, 'ob, 'info, 'sp) process list) option" where
  "recv_all [] = Some ([], [])"
| "recv_all (p # ps) =
     (case outbox p of
        [] \<Rightarrow> None
      | r # rest \<Rightarrow>
          (case recv_all ps of
             None \<Rightarrow> None
           | Some (rs, ps') \<Rightarrow> Some (r # rs, p\<lparr>outbox := rest\<rparr> # ps')))"

text \<open>
  \<open>obs, rewards, dones, infos = zip(*results)\<close> needs four-tuples, and at least one of
  them; then the four batches are built.
  \<^verbatim>\<open>
    return obs, np.stack(rewards), np.stack(dones), infos
  \<close>
\<close>

fun unzip_results ::
  "('ob, 'info, 'sp) reply list \<Rightarrow> py_error + ('ob list \<times> real list \<times> bool list \<times> 'info list)" where
  "unzip_results [] = Inr ([], [], [], [])"
| "unzip_results (StepReply ob reward done info # rs) =
     (case unzip_results rs of
        Inl e \<Rightarrow> Inl e
      | Inr (obs, rewards, dones, infos) \<Rightarrow>
          Inr (ob # obs, reward # rewards, done # dones, info # infos))"
| "unzip_results (r # rs) = Inl ValueError"

definition batch_results ::
  "(ndarray observation, 'info, 'sp) reply list
     \<Rightarrow> py_error + (ndarray observation \<times> real list \<times> bool list \<times> 'info list)" where
  "batch_results results =
     (if results = [] then Inl ValueError
      else
        (case unzip_results results of
           Inl e \<Rightarrow> Inl e
         | Inr (obs, rewards, dones, infos) \<Rightarrow>
             (case stack_obs obs of
                Inl e \<Rightarrow> Inl e
              | Inr batch \<Rightarrow> Inr (batch, rewards, dones, infos))))"

text \<open>
  \<open>ParallelEnvWrapper._step\<close>: the sends, the workers running in the order of the
  schedule, the receives, the batching. The answer is \<open>None\<close> when a receive waits for
  ever.
\<close>

definition parallel_step ::
  "nat list \<Rightarrow> ('s, 'd, ndarray observation, 'info, 'sp) process list \<Rightarrow> 'd list
     \<Rightarrow> ((py_error + (ndarray observation \<times> real list \<times> bool list \<times> 'info list))
          \<times> ('s, 'd, ndarray observation, 'info, 'sp) process list) option" where
  "parallel_step schedule pipes actions =
     (case recv_all (run_schedule schedule (send_steps pipes actions)) of
        None \<Rightarrow> None
      | Some (results, pipes') \<Rightarrow> Some (batch_results results, pipes'))"

text \<open>
  What worker \<open>i\<close> has to answer to its action: the tuple of its environment's step, with
  the observation of a reset in place of a terminal observation.
\<close>

definition step_answer ::
  "('s, 'd, 'ob, 'info, 'sp) env \<Rightarrow> 's \<Rightarrow> 'd \<Rightarrow> ('ob, 'info, 'sp) reply" where
  "step_answer env s action =
     (case env_step env s action of
        ((ob, reward, done, info), s1) \<Rightarrow>
          StepReply (if done then fst (env_reset env s1) else ob) reward done info)"

definition idle :: "('s, 'd, 'ob, 'info, 'sp) process \<Rightarrow> bool" where
  \<comment> \<open>a worker waiting for a command, with nothing in its pipe\<close>
  "idle p = ((case state p of Waiting s \<Rightarrow> True | _ \<Rightarrow> False) \<and> inbox p = [] \<and> outbox p = [])"

definition env_state :: "('s, 'd, 'ob, 'info, 'sp) process \<Rightarrow> 's" where
  "env_state p = (case state p of Waiting s \<Rightarrow> s | Closed s \<Rightarrow> s)"

text \<open>
  A batch keeps the order of the observations. For arrays the batch is an array, and
  its row \<open>i\<close> is the array of observation \<open>i\<close>. For tuples (the first observation
  decides, as in the code) the batch is a tuple with one column per field of the first
  observation, every column is an array, and row \<open>i\<close> of column \<open>c\<close> is field \<open>c\<close> of
  observation \<open>i\<close>.
\<close>

definition stacked_in_order :: "ndarray observation list \<Rightarrow> ndarray observation \<Rightarrow> bool" where
  "stacked_in_order obs batch =
     (case obs of
        [] \<Rightarrow> False
      | Composite parts # _ \<Rightarrow>
          (case batch of
             Composite columns \<Rightarrow>
               length columns = length parts
               \<and> list_all
                   (\<lambda>c. case columns ! c of
                           Arr column \<Rightarrow> map (\<lambda>ob. item ob c) obs = map Inr column
                         | Num v \<Rightarrow> False)
                   [0 ..< length parts]
           | Single b \<Rightarrow> False)
      | Single a # _ \<Rightarrow>
          (case batch of
             Single (Arr arrays) \<Rightarrow> map asanyarray obs = map Inr arrays
           | Single (Num v) \<Rightarrow> False
           | Composite columns \<Rightarrow> False))"

section \<open>The Zerg observation wrapper\<close>

subsection \<open>Raw observations\<close>

text \<open>
  What the features read of a raw observation: of each unit its alliance
  (\<open>u.int_attr.alliance\<close>), its type, its position and whether it flies, and the player
  vector \<open>observation["player"]\<close>.
\<close>

record sc_unit =
  alliance :: int
  unit_type :: int
  pos_x :: real
  pos_y :: real
  is_flying :: bool

record raw_observation =
  units :: "sc_unit list"
  player :: "int list"

datatype AllianceType = SELF | ALLY | NEUTRAL | ENEMY

fun alliance_value :: "AllianceType \<Rightarrow> int" where
  "alliance_value SELF = 1"
| "alliance_value ALLY = 2"
| "alliance_value NEUTRAL = 3"
| "alliance_value ENEMY = 4"

definition units_of :: "AllianceType \<Rightarrow> raw_observation \<Rightarrow> sc_unit list" where
  \<comment> \<open>\<open>[u for u in observation['units'] if u.int_attr.alliance == A.value]\<close>\<close>
  "units_of a observation = filter (\<lambda>u. alliance u = alliance_value a) (units observation)"

subsection \<open>Arrays and dictionaries\<close>

text \<open>
  A feature map is an array of channels of rows. \<open>np.zeros\<close> rejects a negative
  dimension. An index \<open>i\<close> into a dimension of size \<open>n\<close> is good from \<open>-n\<close> to \<open>n - 1\<close>, a
  negative one counting from the end.
\<close>

type_synonym array3 = "real list list list"

definition zeros3 :: "int \<Rightarrow> int \<Rightarrow> int \<Rightarrow> py_error + array3" where
  "zeros3 c h w =
     (if c < 0 \<or> h < 0 \<or> w < 0 then Inl ValueError
      else Inr (replicate (nat c) (replicate (nat h) (replicate (nat w) 0))))"

definition np_index :: "nat \<Rightarrow> int \<Rightarrow> py_error + nat" where
  "np_index n i =
     (if 0 \<le> i \<and> i < int n then Inr (nat i)
      else if - int n \<le> i \<and> i < 0 then Inr (nat (i + int n))
      else Inl IndexError)"

definition add_at :: "array3 \<Rightarrow> int \<Rightarrow> int \<Rightarrow> int \<Rightarrow> py_error + array3" where
  \<comment> \<open>\<open>features[c, y, x] += 1.0\<close>\<close>
  "add_at features c y x =
     (case np_index (length features) c of
        Inl e \<Rightarrow> Inl e
      | Inr ci \<Rightarrow>
          (case np_index (length (features ! ci)) y of
             Inl e \<Rightarrow> Inl e
           | Inr yi \<Rightarrow>
               (case np_index (length (features ! ci ! yi)) x of
                  Inl e \<Rightarrow> Inl e
                | Inr xi \<Rightarrow>
                    Inr (features[ci := (features ! ci)
                           [yi := (features ! ci ! yi)[xi := features ! ci ! yi ! xi + 1]]]))))"

text \<open>
  A dictionary is the list of its items, with distinct keys. A key that is set again
  keeps its place and gets the new value (\<open>AList.update\<close>); a dictionary display sets its
  items from left to right.
\<close>

definition dict_of :: "('k \<times> 'v) list \<Rightarrow> ('k \<times> 'v) list" where
  "dict_of items = foldl (\<lambda>d (k, v). AList.update k v d) [] items"

subsection \<open>The features\<close>

text \<open>
  \<open>UnitType3DFeature._generate_features\<close>; the loop over the units first.
  \<^verbatim>\<open>
    num_channels = max(self._type_map.values()) + 1
    features = np.zeros((num_channels, self._resolution, self._resolution), ...)
    grid_width = self._world_size[0] / self._resolution
    grid_height = self._world_size[1] / self._resolution
    for u in units:
        if u.unit_type in self._type_map:
            c = self._type_map[u.unit_type]
            x = u.float_attr.pos_x // grid_width
            y = self._resolution - 1 - u.float_attr.pos_y // grid_height
            features[c, int(y), int(x)] += 1.0
    return features
  \<close>
\<close>

fun unit_type_loop ::
  "(int \<times> int) list \<Rightarrow> int \<Rightarrow> real \<Rightarrow> real \<Rightarrow> sc_unit list \<Rightarrow> array3 \<Rightarrow> py_error + array3" where
  "unit_type_loop tm res grid_width grid_height [] features = Inr features"
| "unit_type_loop tm res grid_width grid_height (u # us) features =
     (case map_of tm (unit_type u) of
        None \<Rightarrow> unit_type_loop tm res grid_width grid_height us features
      | Some c \<Rightarrow>
          (case add_at features c (res - 1 - \<lfloor>pos_y u / grid_height\<rfloor>) \<lfloor>pos_x u / grid_width\<rfloor> of
             Inl e \<Rightarrow> Inl e
           | Inr features' \<Rightarrow> unit_type_loop tm res grid_width grid_height us features'))"

definition unit_type_generate_features ::
  "(int \<times> int) list \<Rightarrow> int \<Rightarrow> real \<times> real \<Rightarrow> sc_unit list \<Rightarrow> py_error + array3" where
  "unit_type_generate_features tm res world_size us =
     (if tm = [] then Inl ValueError
      else
        (case zeros3 (Max (set (map snd tm)) + 1) res res of
           Inl e \<Rightarrow> Inl e
         | Inr features \<Rightarrow>
             if res = 0 then Inl ZeroDivisionError
             else unit_type_loop tm res (fst world_size / real_of_int res)
                    (snd world_size / real_of_int res) us features))"

definition unit_type_num_channels :: "(int \<times> int) list \<Rightarrow> py_error + int" where
  \<comment> \<open>\<open>(max(self._type_map.values()) + 1) * 2\<close>\<close>
  "unit_type_num_channels tm =
     (if tm = [] then Inl ValueError else Inr ((Max (set (map snd tm)) + 1) * 2))"

definition unit_type_features ::
  "(int \<times> int) list \<Rightarrow> int \<Rightarrow> real \<times> real \<Rightarrow> raw_observation \<Rightarrow> py_error + array3" where
  "unit_type_features tm res world_size observation =
     (case unit_type_generate_features tm res world_size (units_of SELF observation) of
        Inl e \<Rightarrow> Inl e
      | Inr self_features \<Rightarrow>
          (case unit_type_generate_features tm res world_size (units_of ENEMY observation) of
             Inl e \<Rightarrow> Inl e
           | Inr enemy_features \<Rightarrow> Inr (self_features @ enemy_features)))"

text \<open>
  \<open>PlayerRelative3DFeature\<close>: one channel for each of self, enemy and neutral, every
  unit counted at its cell.
\<close>

fun player_relative_loop ::
  "int \<Rightarrow> real \<Rightarrow> real \<Rightarrow> sc_unit list \<Rightarrow> array3 \<Rightarrow> py_error + array3" where
  "player_relative_loop res grid_width grid_height [] features = Inr features"
| "player_relative_loop res grid_width grid_height (u # us) features =
     (case add_at features 0 (res - 1 - \<lfloor>pos_y u / grid_height\<rfloor>) \<lfloor>pos_x u / grid_width\<rfloor> of
        Inl e \<Rightarrow> Inl e
      | Inr features' \<Rightarrow> player_relative_loop res grid_width grid_height us features')"

definition player_relative_generate_features ::
  "int \<Rightarrow> real \<times> real \<Rightarrow> sc_unit list \<Rightarrow> py_error + array3" where
  "player_relative_generate_features res world_size us =
     (case zeros3 1 res res of
        Inl e \<Rightarrow> Inl e
      | Inr features \<Rightarrow>
          if res = 0 then Inl ZeroDivisionError
          else player_relative_loop res (fst world_size / real_of_int res)
                 (snd world_size / real_of_int res) us features)"

definition player_relative_features ::
  "int \<Rightarrow> real \<times> real \<Rightarrow> raw_observation \<Rightarrow> py_error + array3" where
  "player_relative_features res world_size observation =
     (case player_relative_generate_features res world_size (units_of SELF observation) of
        Inl e \<Rightarrow> Inl e
      | Inr self_features \<Rightarrow>
          (case player_relative_generate_features res world_size (units_of ENEMY observation) of
             Inl e \<Rightarrow> Inl e
           | Inr enemy_features \<Rightarrow>
               (case player_relative_generate_features res world_size
                       (units_of NEUTRAL observation) of
                  Inl e \<Rightarrow> Inl e
                | Inr neutral_features \<Rightarrow>
                    Inr (self_features @ enemy_features @ neutral_features))))"

text \<open>
  \<open>Player1DFeature.features\<close>. \<open>player[1:-2]\<close> drops the first and the last two entries.
  The division by the eight scales broadcasts: the sizes are equal, or one of them is 1.
  \<^verbatim>\<open>
    player_features = observation["player"][1:-2].astype(np.float32)
    scale = np.array([1000, 1000, 10, 10, 10, 10, 10, 10])
    scaled_features = (player_features / scale).astype(np.float32)
    log_features = np.log10(player_features + 1).astype(np.float32)
    return np.concatenate((scaled_features, log_features))
  \<close>
\<close>

definition broadcast_div :: "real list \<Rightarrow> real list \<Rightarrow> py_error + real list" where
  "broadcast_div x y =
     (if length x = length y then Inr (map2 (/) x y)
      else if length x = 1 then Inr (map (\<lambda>b. hd x / b) y)
      else if length y = 1 then Inr (map (\<lambda>a. a / hd y) x)
      else Inl ValueError)"

definition log10_plus_1 :: "real list \<Rightarrow> real list" where
  "log10_plus_1 x = map (\<lambda>v. log 10 (v + 1)) x"

definition player_features :: "raw_observation \<Rightarrow> py_error + real list" where
  "player_features observation =
     (let pf = map real_of_int (drop 1 (take (length (player observation) - 2) (player observation)))
      in case broadcast_div pf [1000, 1000, 10, 10, 10, 10, 10, 10] of
           Inl e \<Rightarrow> Inl e
         | Inr scaled_features \<Rightarrow> Inr (scaled_features @ log10_plus_1 pf))"

definition player_num_dims :: int where
  "player_num_dims = 8 * 2"

text \<open>
  \<open>UnitCount1DFeature\<close>. The counts are kept in a dictionary whose keys are the types of
  the list; its values are taken in the order of the dictionary.
  \<^verbatim>\<open>
    count = {t: 0 for t in self._type_list}
    for u in units:
        if u.unit_type in count:
            count[u.unit_type] += 1
    return np.array(list(count.values()), dtype=np.float32)
  \<close>
\<close>

fun unit_count_loop :: "sc_unit list \<Rightarrow> (int \<times> nat) list \<Rightarrow> (int \<times> nat) list" where
  "unit_count_loop [] count = count"
| "unit_count_loop (u # us) count =
     (case map_of count (unit_type u) of
        None \<Rightarrow> unit_count_loop us count
      | Some n \<Rightarrow> unit_count_loop us (AList.update (unit_type u) (n + 1) count))"

definition unit_count_generate_features :: "int list \<Rightarrow> sc_unit list \<Rightarrow> real list" where
  "unit_count_generate_features type_list us =
     map (\<lambda>(t, n). real n) (unit_count_loop us (dict_of (map (\<lambda>t. (t, 0)) type_list)))"

definition unit_count_features :: "int list \<Rightarrow> raw_observation \<Rightarrow> real list" where
  "unit_count_features type_list observation =
     (let features = unit_count_generate_features type_list (units_of SELF observation)
                     @ unit_count_generate_features type_list (units_of ENEMY observation)
      in map (\<lambda>v. v / 10) features @ log10_plus_1 features)"

definition unit_count_num_dims :: "int list \<Rightarrow> int" where
  "unit_count_num_dims type_list = int (length type_list) * 2 * 2"

text \<open>
  \<open>UnitStat1DFeature\<close>: the numbers of own, own flying, enemy and enemy flying units.
\<close>

definition unit_stat_features :: "raw_observation \<Rightarrow> real list" where
  "unit_stat_features observation =
     (let self_units = units_of SELF observation;
          self_flying_units = filter is_flying self_units;
          enemy_units = units_of ENEMY observation;
          enemy_flying_units = filter is_flying enemy_units;
          features = [real (length self_units), real (length self_flying_units),
                      real (length enemy_units), real (length enemy_flying_units)]
      in map (\<lambda>v. v / 50) features @ log10_plus_1 features)"

definition unit_stat_num_dims :: int where
  "unit_stat_num_dims = 4 * 2"

subsection \<open>The wrapper\<close>

text \<open>
  The unit types that \<open>ZergObservationWrapper.__init__\<close> names. Their numbers
  (\<open>UNIT_TYPEID.X.value\<close>) are those of the game and come with pysc2: they are the
  parameter \<open>tid\<close>.
\<close>

datatype UNIT_TYPEID =
    ZERG_DRONE | ZERG_ZERGLING | ZERG_ROACH | ZERG_HYDRALISK | ZERG_OVERLORD
  | ZERG_OVERSEER | ZERG_HATCHERY | ZERG_LAIR | ZERG_HIVE | ZERG_EXTRACTOR
  | ZERG_QUEEN | ZERG_RAVAGER | ZERG_BANELING | ZERG_CHANGELINGZERGLING | ZERG_EGG
  | ZERG_EVOLUTIONCHAMBER | ZERG_BROODLING | ZERG_LARVA | ZERG_BANELINGNEST
  | ZERG_SPAWNINGPOOL | ZERG_ROACHWARREN | ZERG_HYDRALISKDEN

definition zerg_type_map :: "(UNIT_TYPEID \<Rightarrow> int) \<Rightarrow> (int \<times> int) list" where
  "zerg_type_map tid =
     dict_of [(tid ZERG_DRONE, 0), (tid ZERG_ZERGLING, 1), (tid ZERG_ROACH, 2),
              (tid ZERG_HYDRALISK, 3), (tid ZERG_OVERLORD, 4), (tid ZERG_OVERSEER, 5),
              (tid ZERG_HATCHERY, 6), (tid ZERG_LAIR, 6), (tid ZERG_HIVE, 6),
              (tid ZERG_EXTRACTOR, 7), (tid ZERG_QUEEN, 8), (tid ZERG_RAVAGER, 9),
              (tid ZERG_BANELING, 10)]"

definition zerg_type_list :: "(UNIT_TYPEID \<Rightarrow> int) \<Rightarrow> int list" where
  "zerg_type_list tid =
     [tid ZERG_DRONE, tid ZERG_ZERGLING, tid ZERG_ROACH, tid ZERG_HYDRALISK,
      tid ZERG_OVERLORD, tid ZERG_OVERSEER, tid ZERG_QUEEN, tid ZERG_CHANGELINGZERGLING,
      tid ZERG_RAVAGER, tid ZERG_EGG, tid ZERG_EVOLUTIONCHAMBER, tid ZERG_BANELING,
      tid ZERG_BROODLING, tid ZERG_LARVA, tid ZERG_HATCHERY, tid ZERG_LAIR, tid ZERG_HIVE,
      tid ZERG_BANELINGNEST, tid ZERG_SPAWNINGPOOL, tid ZERG_ROACHWARREN,
      tid ZERG_HYDRALISKDEN, tid ZERG_EXTRACTOR]"

text \<open>
  The wrapper after \<open>__init__\<close>: the resolution read from the observation space of the
  environment, the two tables, the flag \<open>flip\<close>, the player position of the
  environment, and whether the action space is a \<open>MaskableDiscrete\<close>. The world size is
  the default of the two 3-D features.
\<close>

record zerg_wrapper =
  resolution :: int
  type_map :: "(int \<times> int) list"
  type_list :: "int list"
  flip :: bool
  player_position :: int
  maskable :: bool

definition world_size :: "real \<times> real" where
  "world_size = (200, 176)"

definition zerg_init :: "(UNIT_TYPEID \<Rightarrow> int) \<Rightarrow> int \<Rightarrow> bool \<Rightarrow> int \<Rightarrow> bool \<Rightarrow> zerg_wrapper" where
  "zerg_init tid res fl pos masked =
     \<lparr>resolution = res, type_map = zerg_type_map tid, type_list = zerg_type_list tid,
      flip = fl, player_position = pos, maskable = masked\<rparr>"

text \<open>
  The shapes of the two boxes of \<open>self.observation_space\<close>:
  \<^verbatim>\<open>
    n_channels = sum([self._unit_type_feature.num_channels,
                      self._player_relative_feature.num_channels])
    n_dims = sum([self._unit_stat_feature.num_dims,
                  self._unit_count_feature.num_dims,
                  self._player_feature.num_dims])
    self.observation_space = spaces.Tuple([
        spaces.Box(0.0, float('inf'), [n_channels, resolution, resolution]),
        spaces.Box(0.0, float('inf'), [n_dims])])
  \<close>
\<close>

definition zerg_observation_space :: "zerg_wrapper \<Rightarrow> py_error + (int list \<times> int list)" where
  "zerg_observation_space w =
     (case unit_type_num_channels (type_map w) of
        Inl e \<Rightarrow> Inl e
      | Inr ut \<Rightarrow>
          (let n_channels = ut + 3;
               n_dims = unit_stat_num_dims + unit_count_num_dims (type_list w) + player_num_dims
           in Inr ([n_channels, resolution w, resolution w], [n_dims])))"

definition diagonal_flip :: "zerg_wrapper \<Rightarrow> array3 \<Rightarrow> array3" where
  \<comment> \<open>\<open>np.flip(np.flip(feature, axis=1), axis=2)\<close> for player 0\<close>
  "diagonal_flip w feature =
     (if player_position w = 0 then map (\<lambda>channel. map rev (rev channel)) feature
      else feature)"

text \<open>
  \<open>ZergObservationWrapper._observation\<close>. With a \<open>MaskableDiscrete\<close> action space the
  observation comes as a pair with the action mask (\<open>Some\<close> mask), and the mask is
  returned as third component.
  \<^verbatim>\<open>
    if isinstance(self.env.action_space, MaskableDiscrete):
        observation, action_mask = observation
    player_rel_feat = self._player_relative_feature.features(observation)
    unit_type_feat = self._unit_type_feature.features(observation)
    unit_count_feat = self._unit_count_feature.features(observation)
    unit_stat_feat = self._unit_stat_feature.features(observation)
    player_feat = self._player_feature.features(observation)
    spatial_feat = np.concatenate([player_rel_feat, unit_type_feat])
    nonspatial_feat = np.concatenate([unit_stat_feat, unit_count_feat, player_feat])
    if self._flip:
        spatial_feat = self._diagonal_flip(spatial_feat)
    if isinstance(self.action_space, MaskableDiscrete):
        return (spatial_feat, nonspatial_feat, action_mask)
    else:
        return (spatial_feat, nonspatial_feat)
  \<close>
\<close>

definition zerg_observation ::
  "zerg_wrapper \<Rightarrow> raw_observation \<Rightarrow> 'm option
     \<Rightarrow> py_error + (array3 \<times> real list \<times> 'm option)" where
  "zerg_observation w observation action_mask =
     (if maskable w \<and> action_mask = None then Inl ValueError
      else
        (case player_relative_features (resolution w) world_size observation of
           Inl e \<Rightarrow> Inl e
         | Inr player_rel_feat \<Rightarrow>
             (case unit_type_features (type_map w) (resolution w) world_size observation of
                Inl e \<Rightarrow> Inl e
              | Inr unit_type_feat \<Rightarrow>
                  (let unit_count_feat = unit_count_features (type_list w) observation;
                       unit_stat_feat = unit_stat_features observation
                   in case player_features observation of
                        Inl e \<Rightarrow> Inl e
                      | Inr player_feat \<Rightarrow>
                          (let spatial_feat = player_rel_feat @ unit_type_feat;
                               nonspatial_feat = unit_stat_feat @ unit_count_feat @ player_feat;
                               spatial_feat' =
                                 (if flip w then diagonal_flip w spatial_feat else spatial_feat)
                           in Inr (spatial_feat', nonspatial_feat,
                                   if maskable w then action_mask else None))))))"

text \<open>An array of \<open>c\<close> channels of \<open>r\<close> rows of \<open>r\<close> numbers.\<close>

definition has_shape :: "nat \<Rightarrow> nat \<Rightarrow> array3 \<Rightarrow> bool" where
  "has_shape c r feature =
     (length feature = c
      \<and> list_all (\<lambda>channel. length channel = r \<and> list_all (\<lambda>row. length row = r) channel)
           feature)"

text \<open>
  For the examples: a numbering of the unit types, and a raw observation with an own
  drone, an enemy zergling, a neutral unit of another type, and a player vector of
  eleven entries.
\<close>

fun example_tid :: "UNIT_TYPEID \<Rightarrow> int" where
  "example_tid ZERG_DRONE = 104"
| "example_tid ZERG_ZERGLING = 105"
| "example_tid ZERG_ROACH = 110"
| "example_tid ZERG_HYDRALISK = 107"
| "example_tid ZERG_OVERLORD = 106"
| "example_tid ZERG_OVERSEER = 129"
| "example_tid ZERG_HATCHERY = 86"
| "example_tid ZERG_LAIR = 100"
| "example_tid ZERG_HIVE = 101"
| "example_tid ZERG_EXTRACTOR = 88"
| "example_tid ZERG_QUEEN = 126"
| "example_tid ZERG_RAVAGER = 688"
| "example_tid ZERG_BANELING = 9"
| "example_tid ZERG_CHANGELINGZERGLING = 17"
| "example_tid ZERG_EGG = 103"
| "example_tid ZERG_EVOLUTIONCHAMBER = 90"
| "example_tid ZERG_BROODLING = 289"
| "example_tid ZERG_LARVA = 151"
| "example_tid ZERG_BANELINGNEST = 96"
| "example_tid ZERG_SPAWNINGPOOL = 89"
| "example_tid ZERG_ROACHWARREN = 97"
| "example_tid ZERG_HYDRALISKDEN = 91"

definition example_observation :: raw_observation where
  "example_observation =
     \<lparr>units =
        [\<lparr>alliance = 1, unit_type = 104, pos_x = 10, pos_y = 10, is_flying = False\<rparr>,
         \<lparr>alliance = 4, unit_type = 105, pos_x = 150, pos_y = 100, is_flying = False\<rparr>,
         \<lparr>alliance = 3, unit_type = 341, pos_x = 199, pos_y = 175, is_flying = False\<rparr>],
      player = [1, 50, 0, 12, 14, 0, 12, 0, 0, 0, 3]\<rparr>"

section \<open>An example environment\<close>

text \<open>
  An environment for the examples: its state counts the steps, the observation of a
  step is the sum of the state and the action, the reward is the action, and the
  episode is done when the action is 0. A reset starts again from 0.
\<close>

definition counting_env :: "(nat, nat, ndarray observation, unit, unit) env" where
  "counting_env =
     \<lparr>env_step = (\<lambda>s a. ((Single (Num (real (s + a))), real a, a = 0, ()), Suc s)),
      env_reset = (\<lambda>s. (Single (Num 0), 0)),
      env_close = (\<lambda>s. s),
      action_space = (\<lambda>s. ()),
      observation_space = (\<lambda>s. ())\<rparr>"

text \<open>
  An environment that records the calls made to it: its state is the list of the calls
  so far. The observation and the reward of a step are the action, and the episode is
  done when the action is 0.
\<close>

definition logging_env :: "(string list, nat, ndarray observation, unit, string) env" where
  "logging_env =
     \<lparr>env_step = (\<lambda>s a. ((Single (Num (real a)), real a, a = 0, ()), s @ [''step''])),
      env_reset = (\<lambda>s. (Single (Num 0), s @ [''reset''])),
      env_close = (\<lambda>s. s @ [''close'']),
      action_space = (\<lambda>s. ''Discrete''),
      observation_space = (\<lambda>s. ''Box'')\<rparr>"

text \<open>
  An environment with tuple observations: the first field is the state, the second
  the pair of the action and of the sum of the state and the action. The rest is as in
  the counting environment.
\<close>

definition pair_env :: "(nat, nat, ndarray observation, unit, unit) env" where
  "pair_env =
     \<lparr>env_step = (\<lambda>s a. ((Composite [Num (real s), Arr [Num (real a), Num (real (s + a))]],
                           real a, a = 0, ()), Suc s)),
      env_reset = (\<lambda>s. (Composite [Num 0, Arr [Num 0, Num 0]], 0)),
      env_close = (\<lambda>s. s),
      action_space = (\<lambda>s. ()),
      observation_space = (\<lambda>s. ())\<rparr>"

section \<open>Properties of the return bootstrapper\<close>

lemma shaped_Cons: "shaped n ((rw, d) # rest) = (length rw = n \<and> length d = n \<and> shaped n rest)"
  by (simp add: shaped_def)

lemma length_loop_cells: "length (loop_cells ar gamma steps v) = length steps"
  by (induction ar gamma steps v rule: loop_cells.induct) (auto simp: Let_def)

lemma boostrap_loop_store:
  assumes "r < length s" "length (s ! r) = n" "shaped n steps"
  shows "boostrap_loop ar gamma steps s r tv =
           Inr (if steps = [] then s
                else s[r := map2 (ar_mul ar) (s ! r) (rsub ar (ar_one ar) (snd (hd steps)))]
                       @ loop_cells ar gamma steps (s ! r),
                tv @ [length s ..< length s + length steps])"
  using assms
proof (induction steps arbitrary: s r tv)
  case Nil
  then show ?case by simp
next
  case (Cons step rest)
  obtain rw d where step: "step = (rw, d)" by (cases step)
  from Cons.prems step have len: "length rw = n" "length d = n" and rest: "shaped n rest"
    by (simp_all add: shaped_Cons)
  define m where "m = map2 (ar_mul ar) (s ! r) (rsub ar (ar_one ar) d)"
  define v where "v = loop_next ar gamma rw d (s ! r)"
  define s2 where "s2 = s[r := m] @ [v]"
  have lv: "length v = n" using len Cons.prems by (simp add: v_def loop_next_def smul_def rsub_def)
  have r2: "length s < length s2" "s2 ! length s = v"
    by (simp_all add: s2_def nth_append)
  have IH: "boostrap_loop ar gamma rest s2 (length s) (tv @ [length s]) =
      Inr (if rest = [] then s2
           else s2[length s := map2 (ar_mul ar) (s2 ! length s) (rsub ar (ar_one ar) (snd (hd rest)))]
                   @ loop_cells ar gamma rest (s2 ! length s),
           (tv @ [length s]) @ [length s2 ..< length s2 + length rest])"
    using Cons.IH[of "length s" s2 "tv @ [length s]"] r2 lv rest by simp
  have unfold: "boostrap_loop ar gamma (step # rest) s r tv =
      boostrap_loop ar gamma rest s2 (length s) (tv @ [length s])"
    using Cons.prems(1,2) len
    by (simp add: step imul_def tmul_def tadd_def alloc_def unsqueeze_def rsub_def smul_def
        s2_def v_def m_def loop_next_def)
  have idx: "tv @ [length s ..< length s + length (step # rest)] =
      (tv @ [length s]) @ [length s2 ..< length s2 + length rest]"
    by (simp add: s2_def upt_conv_Cons del: upt_Suc)
  show ?case
  proof (cases rest)
    case Nil
    then show ?thesis
      using unfold IH idx by (simp add: step s2_def v_def m_def)
  next
    case (Cons step' rest')
    obtain rw' d' where step': "step' = (rw', d')" by (cases step')
    have "s2[length s := map2 (ar_mul ar) v (rsub ar (ar_one ar) d')]
            = s[r := m] @ [map2 (ar_mul ar) v (rsub ar (ar_one ar) d')]"
      by (simp add: s2_def list_update_append)
    then show ?thesis
      using unfold IH idx Cons step' r2
      by (simp add: step v_def[symmetric] m_def[symmetric])
  qed
qed

lemma length_loop_next:
  "length v = n \<Longrightarrow> length reward = n \<Longrightarrow> length done = n \<Longrightarrow>
   length (loop_next ar gamma reward done v) = n"
  by (simp add: loop_next_def smul_def rsub_def)

lemma nth_loop_next:
  "i < n \<Longrightarrow> length v = n \<Longrightarrow> length reward = n \<Longrightarrow> length done = n \<Longrightarrow>
   loop_next ar gamma reward done v ! i =
     ar_add ar (ar_mul ar gamma (ar_mul ar (v ! i) (ar_sub ar (ar_one ar) (done ! i))))
       (reward ! i)"
  by (simp add: loop_next_def smul_def rsub_def)

lemma nth_masked:
  "i < n \<Longrightarrow> length x = n \<Longrightarrow> length done = n \<Longrightarrow>
   map2 (ar_mul ar) x (rsub ar (ar_one ar) done) ! i
     = ar_mul ar (x ! i) (ar_sub ar (ar_one ar) (done ! i))"
  by (simp add: rsub_def)

lemma length_loop_value:
  "shaped n steps \<Longrightarrow> length v = n \<Longrightarrow> length (loop_value ar gamma steps v) = n"
proof (induction steps arbitrary: v)
  case Nil
  then show ?case by simp
next
  case (Cons x rest)
  obtain rw d where x: "x = (rw, d)" by (cases x)
  with Cons.prems have "length rw = n" "length d = n" "shaped n rest"
    by (simp_all add: shaped_Cons)
  with Cons.prems Cons.IH[of "loop_next ar gamma rw d v"] show ?case
    by (simp add: x length_loop_next)
qed

text \<open>
  Two runs agree on replica \<open>i\<close> from a pass on when the masked value \<open>r * (1 - done)\<close>
  of that pass is the same in both, and the rewards of the replica are equal from
  then on.
\<close>

lemma loop_cells_agree:
  assumes "list_all2 (same_at n i) steps steps'" "i < n"
    "length v = n" "length v' = n" "steps \<noteq> []"
    "ar_mul ar (v ! i) (ar_sub ar (ar_one ar) (snd (hd steps) ! i))
       = ar_mul ar (v' ! i) (ar_sub ar (ar_one ar) (snd (hd steps) ! i))"
    "k < length steps"
  shows "loop_cells ar gamma steps v ! k ! i = loop_cells ar gamma steps' v' ! k ! i"
  using assms
proof (induction steps arbitrary: steps' v v' k)
  case Nil
  then show ?case by simp
next
  case (Cons x rest)
  obtain rw d where x: "x = (rw, d)" by (cases x)
  from Cons.prems(1) obtain y rest' where steps': "steps' = y # rest'"
    and xy: "same_at n i x y" and rests: "list_all2 (same_at n i) rest rest'"
    by (auto simp: list_all2_Cons1)
  obtain rw' d' where y: "y = (rw', d')" by (cases y)
  from xy x y have d': "d' = d" and len: "length rw = n" "length rw' = n" "length d = n"
    and rw: "rw ! i = rw' ! i"
    by (auto simp: same_at_def same_run_def)
  let ?R = "loop_next ar gamma rw d v" and ?R' = "loop_next ar gamma rw' d v'"
  have lR: "length ?R = n" "length ?R' = n"
    using Cons.prems len by (simp_all add: length_loop_next)
  have Ri: "?R ! i = ?R' ! i"
    using Cons.prems(2,3,4,6) len rw by (simp add: nth_loop_next x)
  show ?case
  proof (cases rest)
    case Nil
    with rests have "rest' = []" by simp
    with Nil Cons.prems(7) Ri show ?thesis by (simp add: x y d' steps')
  next
    case (Cons x2 rest2)
    with rests obtain y2 rest2' where r': "rest' = y2 # rest2'" and xy2: "same_at n i x2 y2"
      by (auto simp: list_all2_Cons1)
    obtain rw2 d2 where x2: "x2 = (rw2, d2)" by (cases x2)
    obtain rw2' d2' where y2: "y2 = (rw2', d2')" by (cases y2)
    from xy2 x2 y2 have d2: "d2' = d2" "length d2 = n" by (auto simp: same_at_def same_run_def)
    show ?thesis
    proof (cases k)
      case 0
      with Cons r' x2 y2 Ri lR \<open>i < n\<close> d2 show ?thesis
        by (simp add: x y d' steps' nth_masked)
    next
      case (Suc k')
      with Cons.prems have k': "k' < length rest" by simp
      have ne: "rest \<noteq> []" using Cons by simp
      have m: "ar_mul ar (?R ! i) (ar_sub ar (ar_one ar) (snd (hd rest) ! i))
             = ar_mul ar (?R' ! i) (ar_sub ar (ar_one ar) (snd (hd rest) ! i))"
        using Ri by simp
      from Cons.IH[OF rests \<open>i < n\<close> lR ne m k'] Suc show ?thesis
        by (simp add: x y d' steps')
    qed
  qed
qed

lemma loop_cells_after:
  assumes "list_all2 (same_run n) pre pre'" "list_all2 (same_at n i) post post'" "i < n"
    "length v = n" "length v' = n" "post \<noteq> []"
    "ar_mul ar (loop_value ar gamma pre v ! i) (ar_sub ar (ar_one ar) (snd (hd post) ! i))
       = ar_mul ar (loop_value ar gamma pre' v' ! i) (ar_sub ar (ar_one ar) (snd (hd post) ! i))"
    "k < length post"
  shows "loop_cells ar gamma (pre @ post) v ! (length pre + k) ! i =
         loop_cells ar gamma (pre' @ post') v' ! (length pre + k) ! i"
  using assms
proof (induction pre arbitrary: pre' v v')
  case Nil
  then show ?case using loop_cells_agree[of n i post post' v v' ar k gamma] by simp
next
  case (Cons x pre2)
  obtain rw d where x: "x = (rw, d)" by (cases x)
  from Cons.prems(1) obtain y pre2' where pre': "pre' = y # pre2'"
    and xy: "same_run n x y" and rests: "list_all2 (same_run n) pre2 pre2'"
    by (auto simp: list_all2_Cons1)
  obtain rw' d' where y: "y = (rw', d')" by (cases y)
  from xy x y have d': "d' = d" and len: "length rw = n" "length rw' = n" "length d = n"
    by (auto simp: same_run_def)
  let ?R = "loop_next ar gamma rw d v" and ?R' = "loop_next ar gamma rw' d v'"
  have lR: "length ?R = n" "length ?R' = n"
    using Cons.prems len by (simp_all add: length_loop_next)
  have m: "ar_mul ar (loop_value ar gamma pre2 ?R ! i) (ar_sub ar (ar_one ar) (snd (hd post) ! i))
       = ar_mul ar (loop_value ar gamma pre2' ?R' ! i) (ar_sub ar (ar_one ar) (snd (hd post) ! i))"
    using Cons.prems(7) by (simp add: x y d' pre')
  from Cons.IH[OF rests Cons.prems(2,3) lR Cons.prems(6) m Cons.prems(8)]
  show ?case by (simp add: x y d' pre')
qed

lemma nth_tail_upt: "map (\<lambda>a. (x # xs) ! a) [Suc 0 ..< Suc (length xs)] = xs"
proof -
  have "map (\<lambda>a. (x # xs) ! a) (map Suc [0 ..< length xs]) = map (\<lambda>a. xs ! a) [0 ..< length xs]"
    by simp
  then show ?thesis by (simp add: map_Suc_upt map_nth del: map_map)
qed

lemma boostrap_targets_cells:
  assumes "done_mb \<noteq> []" "length last_value = n" "length (last done_mb) = n"
    "shaped n (zip reward_mb done_mb)"
  shows "boostrap_targets ar gamma reward_mb done_mb last_value =
           Inr (rev (loop_cells ar gamma (rev (zip reward_mb done_mb))
                       (map2 (ar_mul ar) last_value (rsub ar (ar_one ar) (last done_mb)))))"
proof -
  define v where "v = map2 (ar_mul ar) last_value (rsub ar (ar_one ar) (last done_mb))"
  define steps where "steps = rev (zip reward_mb done_mb)"
  define cells where "cells = loop_cells ar gamma steps v"
  have sh: "shaped n steps" using assms(4) by (simp add: shaped_def steps_def)
  have lv: "length ([v] ! 0) = n" using assms(2,3) by (simp add: rsub_def v_def)
  have len: "length cells = length steps" by (simp add: cells_def length_loop_cells)
  have "boostrap_loop ar gamma steps [v] 0 [] =
      Inr (if steps = [] then [v]
           else [v][0 := map2 (ar_mul ar) ([v] ! 0) (rsub ar (ar_one ar) (snd (hd steps)))]
                  @ loop_cells ar gamma steps ([v] ! 0),
           [] @ [length [v] ..< length [v] + length steps])"
    by (rule boostrap_loop_store[OF _ lv sh]) simp
  then obtain w where loop:
    "boostrap_loop ar gamma steps [v] 0 [] = Inr (w # cells, [Suc 0 ..< Suc (length cells)])"
    using len by (cases "steps = []") (simp_all add: cells_def del: upt_Suc)
  have "map (\<lambda>a. (w # cells) ! a) (rev [Suc 0 ..< Suc (length cells)]) = rev cells"
    using nth_tail_upt[of w cells] by (simp only: rev_map[symmetric])
  with loop have "boostrap_targets ar gamma reward_mb done_mb last_value = Inr (rev cells)"
    using assms(1,2,3)
    by (simp add: boostrap_targets_def tmul_def alloc_def rsub_def v_def steps_def del: upt_Suc)
  then show ?thesis by (simp add: cells_def steps_def v_def)
qed

lemma boostrap_targets_agree:
  assumes len: "length done_mb = T" "length reward_mb = T" "length reward_mb' = T"
    and shape: "\<forall>t<T. length (done_mb ! t) = n \<and> length (reward_mb ! t) = n
                  \<and> length (reward_mb' ! t) = n"
    and lv: "length V = n" "length V' = n"
    and t0: "t0 < T" and i: "i < n"
    and masked: "ar_mul ar (carried ar gamma reward_mb done_mb V t0 ! i)
                    (ar_sub ar (ar_one ar) (done_mb ! t0 ! i))
               = ar_mul ar (carried ar gamma reward_mb' done_mb V' t0 ! i)
                    (ar_sub ar (ar_one ar) (done_mb ! t0 ! i))"
    and same: "\<forall>t\<le>t0. reward_mb ! t ! i = reward_mb' ! t ! i"
  shows "\<exists>tg tg'. boostrap_targets ar gamma reward_mb done_mb V = Inr tg
           \<and> boostrap_targets ar gamma reward_mb' done_mb V' = Inr tg'
           \<and> length tg = T \<and> length tg' = T
           \<and> (\<forall>t\<le>t0. tg ! t ! i = tg' ! t ! i)"
proof -
  define Z where "Z = zip reward_mb done_mb"
  define Z' where "Z' = zip reward_mb' done_mb"
  define k where "k = Suc t0"
  define v where "v = map2 (ar_mul ar) V (rsub ar (ar_one ar) (last done_mb))"
  define v' where "v' = map2 (ar_mul ar) V' (rsub ar (ar_one ar) (last done_mb))"
  have lZ: "length Z = T" "length Z' = T" using len by (simp_all add: Z_def Z'_def)
  have ne: "done_mb \<noteq> []" using len t0 by auto
  have ll: "length (last done_mb) = n"
    using ne len shape t0 by (simp add: last_conv_nth)
  have run: "list_all2 (same_run n) Z Z'"
    using len shape by (simp add: list_all2_conv_all_nth Z_def Z'_def same_run_def)
  have at: "list_all2 (same_at n i) (take k Z) (take k Z')"
    using len shape same t0
    by (simp add: list_all2_conv_all_nth Z_def Z'_def same_at_def same_run_def k_def)
  have shZ: "shaped n Z" "shaped n Z'"
    using len shape by (auto simp: shaped_def list_all_length Z_def Z'_def)
  have tg: "boostrap_targets ar gamma reward_mb done_mb V
              = Inr (rev (loop_cells ar gamma (rev Z) v))"
    unfolding Z_def v_def using ne lv(1) ll shZ(1)[unfolded Z_def]
    by (rule boostrap_targets_cells)
  have tg': "boostrap_targets ar gamma reward_mb' done_mb V'
              = Inr (rev (loop_cells ar gamma (rev Z') v'))"
    unfolding Z'_def v'_def using ne lv(2) ll shZ(2)[unfolded Z'_def]
    by (rule boostrap_targets_cells)
  define pre where "pre = rev (drop k Z)"
  define pre' where "pre' = rev (drop k Z')"
  define post where "post = rev (take k Z)"
  define post' where "post' = rev (take k Z')"
  have split: "rev Z = pre @ post" "rev Z' = pre' @ post'"
    by (simp_all add: pre_def post_def pre'_def post'_def rev_append[symmetric])
  have lpre: "length pre = T - k" and lpost: "length post = k"
    using lZ t0 by (simp_all add: pre_def post_def k_def)
  have r1: "list_all2 (same_run n) pre pre'"
    unfolding pre_def pre'_def using run by (simp add: list_all2_rev list_all2_dropI)
  have r2: "list_all2 (same_at n i) post post'"
    unfolding post_def post'_def using at by (simp add: list_all2_rev)
  have pne: "post \<noteq> []" using lpost by (auto simp: k_def)
  have "hd post = Z ! t0"
    using lZ t0 by (simp add: post_def hd_rev k_def take_Suc_conv_app_nth)
  then have hdp: "snd (hd post) ! i = done_mb ! t0 ! i"
    using len t0 by (simp add: Z_def)
  have lvv: "length v = n" "length v' = n"
    using lv ll by (simp_all add: v_def v'_def rsub_def)
  have c: "carried ar gamma reward_mb done_mb V t0 = loop_value ar gamma pre v"
    "carried ar gamma reward_mb' done_mb V' t0 = loop_value ar gamma pre' v'"
    by (simp_all add: carried_def pre_def pre'_def Z_def Z'_def v_def v'_def k_def)
  have m: "ar_mul ar (loop_value ar gamma pre v ! i) (ar_sub ar (ar_one ar) (snd (hd post) ! i))
       = ar_mul ar (loop_value ar gamma pre' v' ! i) (ar_sub ar (ar_one ar) (snd (hd post) ! i))"
    using masked unfolding c hdp .
  have agree: "loop_cells ar gamma (rev Z) v ! (T - Suc t) ! i
             = loop_cells ar gamma (rev Z') v' ! (T - Suc t) ! i" if "t \<le> t0" for t
  proof -
    have idx: "T - Suc t = length pre + (t0 - t)" and kk: "t0 - t < length post"
      using that t0 lpre lpost by (simp_all add: k_def)
    show ?thesis
      unfolding split idx
      by (rule loop_cells_after[OF r1 r2 i lvv pne m kk])
  qed
  have "rev (loop_cells ar gamma (rev Z) v) ! t ! i = rev (loop_cells ar gamma (rev Z') v') ! t ! i"
    if "t \<le> t0" for t
    using that t0 lZ agree[OF that] by (simp add: rev_nth length_loop_cells)
  with tg tg' lZ show ?thesis by (simp add: length_loop_cells)
qed

lemma ndarray_to_tensor_Single: "ndarray_to_tensor gpu (Single a) = Inr (Single a)"
  by (simp add: ndarray_to_tensor_def)

lemma boostrap_converted:
  "ndarray_to_tensor (use_gpu ag) last_obs = Inr x \<Longrightarrow>
   boostrap ag reward_mb done_mb last_obs =
     boostrap_targets exact_arithmetic (discount ag) reward_mb done_mb (snd (actor_critic ag x))"
  by (simp add: boostrap_def split: prod.splits)

lemma boostrap_float32_converted:
  "ndarray_to_tensor gpu last_obs = Inr x \<Longrightarrow>
   boostrap_float32 rnd gpu gamma net reward_mb done_mb last_obs =
     boostrap_targets (float32_arithmetic rnd) gamma reward_mb done_mb (snd (net x))"
  by (simp add: boostrap_float32_def split: prod.splits)

text \<open>
  With exact arithmetic a done flag cuts the dependency, whatever is carried: the
  product with \<open>1 - 1\<close> is zero.
\<close>

lemma boostrap_exact_noninterference:
  assumes "ndarray_to_tensor (use_gpu ag) last_obs = Inr x"
    and "ndarray_to_tensor (use_gpu ag') last_obs' = Inr x'"
    and "length (snd (actor_critic ag x)) = n"
    and "length (snd (actor_critic ag' x')) = n"
    and "discount ag' = discount ag"
    and "length done_mb = T" "length reward_mb = T" "length reward_mb' = T"
    and "\<forall>t<T. length (done_mb ! t) = n \<and> length (reward_mb ! t) = n
                  \<and> length (reward_mb' ! t) = n"
    and "t0 < T" and "i < n" and "done_mb ! t0 ! i = 1"
    and "\<forall>t\<le>t0. reward_mb ! t ! i = reward_mb' ! t ! i"
  shows "\<exists>tg tg'. boostrap ag reward_mb done_mb last_obs = Inr tg
           \<and> boostrap ag' reward_mb' done_mb last_obs' = Inr tg'
           \<and> length tg = T \<and> length tg' = T
           \<and> (\<forall>t\<le>t0. tg ! t ! i = tg' ! t ! i)"
  unfolding boostrap_converted[OF assms(1)] boostrap_converted[OF assms(2)] assms(5)
  using assms(6-9,3,4,10,11) _ assms(13)
  by (rule boostrap_targets_agree) (simp add: assms(12) exact_arithmetic_def)

lemma float32_masked:
  assumes "rnd 0 = Finite 0" "is_finite a"
  shows "ar_mul (float32_arithmetic rnd) a
           (ar_sub (float32_arithmetic rnd) (ar_one (float32_arithmetic rnd)) (Finite 1))
         = Finite 0"
  using assms by (cases a) (simp_all add: float32_arithmetic_def fl_mul_def fl_add_def fl_neg_def is_finite_def)

text \<open>
  Claim C4, amended. Two runs of \<open>_boostrap\<close> on float tensors with the same discount
  and the same done batches, where replica \<open>i\<close> is done at step \<open>t0\<close> and the rewards of
  replica \<open>i\<close> are equal at every step up to \<open>t0\<close>. If the value carried into step \<open>t0\<close>
  for replica \<open>i\<close> is finite in both runs, both runs return and their targets for
  replica \<open>i\<close> are equal at every step up to \<open>t0\<close>, whatever the later rewards and the
  two critics give. This holds for every rounding that keeps zero. The batches are
  well-shaped: \<open>T\<close> steps of \<open>n\<close> replicas. The claim's \<open>t0 < T - 1\<close> is the case
  \<open>Suc t0 < T\<close> of the hypothesis \<open>t0 < T\<close>.
\<close>

theorem boostrap_noninterference_finite:
  assumes "ndarray_to_tensor gpu last_obs = Inr x"
    and "ndarray_to_tensor gpu last_obs' = Inr x'"
    and "length (snd (net x)) = n"
    and "length (snd (net' x')) = n"
    and "rnd 0 = Finite 0"
    and "length done_mb = T" "length reward_mb = T" "length reward_mb' = T"
    and "\<forall>t<T. length (done_mb ! t) = n \<and> length (reward_mb ! t) = n
                  \<and> length (reward_mb' ! t) = n"
    and "t0 < T" and "i < n" and "done_mb ! t0 ! i = Finite 1"
    and "\<forall>t\<le>t0. reward_mb ! t ! i = reward_mb' ! t ! i"
    and "is_finite (carried (float32_arithmetic rnd) gamma reward_mb done_mb (snd (net x)) t0 ! i)"
    and "is_finite (carried (float32_arithmetic rnd) gamma reward_mb' done_mb (snd (net' x')) t0 ! i)"
  shows "\<exists>tg tg'. boostrap_float32 rnd gpu gamma net reward_mb done_mb last_obs = Inr tg
           \<and> boostrap_float32 rnd gpu gamma net' reward_mb' done_mb last_obs' = Inr tg'
           \<and> length tg = T \<and> length tg' = T
           \<and> (\<forall>t\<le>t0. tg ! t ! i = tg' ! t ! i)"
proof -
  let ?ar = "float32_arithmetic rnd"
  have "ar_mul ?ar (carried ?ar gamma reward_mb done_mb (snd (net x)) t0 ! i)
          (ar_sub ?ar (ar_one ?ar) (Finite 1)) = Finite 0"
    and "ar_mul ?ar (carried ?ar gamma reward_mb' done_mb (snd (net' x')) t0 ! i)
          (ar_sub ?ar (ar_one ?ar) (Finite 1)) = Finite 0"
    using assms(5,14,15) by (simp_all only: float32_masked)
  then have masked:
    "ar_mul ?ar (carried ?ar gamma reward_mb done_mb (snd (net x)) t0 ! i)
          (ar_sub ?ar (ar_one ?ar) (done_mb ! t0 ! i))
     = ar_mul ?ar (carried ?ar gamma reward_mb' done_mb (snd (net' x')) t0 ! i)
          (ar_sub ?ar (ar_one ?ar) (done_mb ! t0 ! i))"
    by (simp only: assms(12))
  show ?thesis
    unfolding boostrap_float32_converted[OF assms(1)] boostrap_float32_converted[OF assms(2)]
    using assms(6-9,3,4,10,11) masked assms(13)
    by (rule boostrap_targets_agree)
qed

text \<open>
  An instance: three steps, one replica, done at step 1; the last rewards (1 and 7)
  and the critics (5 and 9) differ, and the carried values (3.5 and 11.5) are finite.
\<close>

theorem boostrap_noninterference_finite_witness:
  "\<exists>tg tg'.
     boostrap_float32 overflow_only False (Finite (1/2))
       (\<lambda>ob::unit observation. ([], [Finite 5]))
       [[Finite 1], [Finite 1], [Finite 1]] [[Finite 0], [Finite 1], [Finite 0]] (Single ())
       = Inr tg
   \<and> boostrap_float32 overflow_only False (Finite (1/2))
       (\<lambda>ob::unit observation. ([], [Finite 9]))
       [[Finite 1], [Finite 1], [Finite 7]] [[Finite 0], [Finite 1], [Finite 0]] (Single ())
       = Inr tg'
   \<and> length tg = 3 \<and> length tg' = 3 \<and> (\<forall>t\<le>1. tg ! t ! 0 = tg' ! t ! 0)"
  by (rule boostrap_noninterference_finite[where x = "Single ()" and x' = "Single ()" and n = 1])
     (simp_all add: ndarray_to_tensor_Single less_Suc_eq numeral_3_eq_3 le_Suc_eq all_conj_distrib
        overflow_only_def carried_def loop_next_def rsub_def smul_def float32_arithmetic_def
        fl_mul_def fl_add_def fl_neg_def is_finite_def)

text \<open>
  Claim C4 as it is written fails on floats. Three steps, one replica, discount 0.5,
  done at step 1 only; the rewards of the two runs are equal at steps 0 and 1. In the
  first run the last reward is 1 and the critic gives 5: the targets are 1.5, 1 and 0.
  In the second run the last reward and the value of the critic are \<open>3 * 2\<^sup>1\<^sup>2\<^sup>6\<close>, a
  finite float: \<open>0.5 * 3 * 2\<^sup>1\<^sup>2\<^sup>6 + 3 * 2\<^sup>1\<^sup>2\<^sup>6\<close> overflows to infinity at step 2, the pass
  for step 1 multiplies it by \<open>1 - 1 = 0\<close>, which gives NaN, and the targets at steps 1
  and 0 are NaN: they depend on what followed step 1. Every finite number of the two
  runs is a float, so that no operation rounds.
\<close>

theorem boostrap_noninterference_counterexample:
  "boostrap_float32 overflow_only False (Finite (1/2))
       (\<lambda>ob::unit observation. ([], [Finite 5]))
       [[Finite 1], [Finite 1], [Finite 1]] [[Finite 0], [Finite 1], [Finite 0]] (Single ())
     = Inr [[Finite (3/2)], [Finite 1], [Finite 0]]
   \<and> boostrap_float32 overflow_only False (Finite (1/2))
       (\<lambda>ob::unit observation. ([], [Finite (3 * 2 ^ 126)]))
       [[Finite 1], [Finite 1], [Finite (3 * 2 ^ 126)]] [[Finite 0], [Finite 1], [Finite 0]]
       (Single ())
     = Inr [[NaN], [NaN], [NaN]]
   \<and> [[Finite (3/2)], [Finite 1], [Finite 0]] ! 0 ! 0 \<noteq> [[NaN], [NaN], [NaN]] ! 0 ! 0"
  by (simp add: boostrap_float32_def ndarray_to_tensor_def boostrap_targets_def tmul_def
      tadd_def rsub_def smul_def alloc_def imul_def unsqueeze_def float32_arithmetic_def
      fl_mul_def fl_add_def fl_neg_def overflow_only_def signed_inf_def)

text \<open>
  Claim C1. The specification's recursion sets \<open>target[t]\<close> to the value of \<open>R\<close> after
  step \<open>t\<close>. In the code the tensor appended for step \<open>t + 1\<close> is a view on the storage
  of \<open>r\<close>, and the next pass multiplies that storage in place by \<open>1 - done[t]\<close>: the
  returned \<open>target[t + 1]\<close> is zero for every replica that was done at step \<open>t\<close>. Two
  steps, one replica, discount 0.9, rewards 1 and 1, done at step 0 only, critic 5:
  the recursion gives the targets 1 and 5.5, the code returns 1 and 0.
\<close>

theorem boostrap_alias_failing_input:
  "boostrap \<lparr>rollout_num_steps = 2, discount = 9/10, ent_coef = 1/1000, val_coef = 1,
        use_gpu = False, actor_critic = (\<lambda>ob::unit observation. ([], [5]))\<rparr>
       [[1], [1]] [[1], [0]] (Single ()) = Inr [[1], [0]]
   \<and> spec_targets (9/10) [[1], [1]] [[1], [0]] [5] = [[1], [11/2]]"
  by (simp add: boostrap_def ndarray_to_tensor_def boostrap_targets_def tmul_def tadd_def
      rsub_def smul_def alloc_def imul_def unsqueeze_def spec_targets_def spec_step_def
      exact_arithmetic_def)

text \<open>
  The scenario of the specification (two replicas, three steps, done only at the last
  step of replica 0) has no done flag before the last step, and the code returns the
  expected targets there.
\<close>

lemma boostrap_spec_scenario:
  "boostrap \<lparr>rollout_num_steps = 3, discount = 9/10, ent_coef = 1/1000, val_coef = 1,
        use_gpu = False, actor_critic = (\<lambda>ob::unit observation. ([], [5, 5]))\<rparr>
       [[1, 0], [0, 1], [1, 1]] [[0, 0], [0, 0], [1, 0]] (Single ())
     = Inr [[181/100, 5355/1000], [9/10, 595/100], [1, 55/10]]"
  by (simp add: boostrap_def ndarray_to_tensor_def boostrap_targets_def tmul_def tadd_def
      rsub_def smul_def alloc_def imul_def unsqueeze_def exact_arithmetic_def)

text \<open>
  Claim C5. With discount 0 the specification wants \<open>target[t] = reward[t]\<close>. The same
  in-place multiplication breaks it: two steps, one replica, rewards 1 and 1, done at
  step 0 only; the code returns the targets 1 and 0, and \<open>target[1]\<close> is not
  \<open>reward[1]\<close>.
\<close>

theorem boostrap_zero_discount_failing_input:
  "boostrap \<lparr>rollout_num_steps = 2, discount = 0, ent_coef = 1/1000, val_coef = 1,
        use_gpu = False, actor_critic = (\<lambda>ob::unit observation. ([], [5]))\<rparr>
       [[1], [1]] [[1], [0]] (Single ()) = Inr [[1], [0]]
   \<and> [[1], [1 :: real]] ! 1 ! 0 \<noteq> [[1], [0]] ! 1 ! 0"
  by (simp add: boostrap_def ndarray_to_tensor_def boostrap_targets_def tmul_def tadd_def
      rsub_def smul_def alloc_def imul_def unsqueeze_def exact_arithmetic_def)

section \<open>Properties of acting and of the rollout\<close>

lemma comprehension_const:
  "comprehension (\<lambda>_. r) xs =
     (if xs = [] then Inr [] else case r of Inl e \<Rightarrow> Inl e | Inr y \<Rightarrow> Inr (map (\<lambda>_. y) xs))"
proof (cases r)
  case (Inl e)
  then show ?thesis by (cases xs) simp_all
next
  case (Inr y)
  have "comprehension (\<lambda>_. Inr y) xs = Inr (map (\<lambda>_. y) xs)"
    by (induction xs) simp_all
  with Inr show ?thesis by simp
qed

lemma comprehension_id: "comprehension (\<lambda>x. Inr x) xs = Inr xs"
  by (induction xs) simp_all

lemma ndarray_to_tensor_cpu_tuple:
  "arrays \<noteq> [] \<Longrightarrow> ndarray_to_tensor False (Composite arrays) = Inl NameError"
  by (simp add: ndarray_to_tensor_def comprehension_const)

lemma ndarray_to_tensor_gpu_tuple:
  "ndarray_to_tensor True (Composite arrays) = Inr (Composite arrays)"
  by (simp add: ndarray_to_tensor_def comprehension_id)

lemma step_cpu_tuple:
  "arrays \<noteq> [] \<Longrightarrow> \<not> use_gpu ag \<Longrightarrow>
   step ag expand_tuple expand_dims multinomial g (Composite arrays) =
     Inl (case expand_tuple arrays of Inl e \<Rightarrow> e | Inr _ \<Rightarrow> NameError)"
  by (simp add: step_def comprehension_const ndarray_to_tensor_cpu_tuple split: sum.splits)

lemma boostrap_cpu_tuple:
  "arrays \<noteq> [] \<Longrightarrow> \<not> use_gpu ag \<Longrightarrow>
   boostrap ag reward_mb done_mb (Composite arrays) = Inl NameError"
  by (simp add: boostrap_def ndarray_to_tensor_cpu_tuple)

lemma rollout_cpu_tuple:
  assumes "arrays \<noteq> []" "\<not> use_gpu ag"
  shows "rollout ag multinomial envs_step e g (Composite arrays) = Inl NameError"
proof (cases "nat (rollout_num_steps ag)")
  case 0
  then show ?thesis using assms by (simp add: rollout_def boostrap_cpu_tuple)
next
  case (Suc k)
  then show ?thesis using assms by (simp add: rollout_def ndarray_to_tensor_cpu_tuple)
qed

text \<open>
  Claim C9. Without GPU, \<open>_ndarray_to_tensor\<close> raises \<open>NameError\<close> on a tuple
  observation (a tuple with at least one field, as every composite observation is),
  and so do \<open>_rollout\<close> and \<open>_boostrap\<close>, which convert first; \<open>step\<close> fails too, with
  \<open>NameError\<close> unless numpy already rejected the tuple. With GPU the tuple is converted.
\<close>

theorem cpu_tuple_name_error:
  assumes "\<not> use_gpu ag" and "arrays \<noteq> []"
  shows "ndarray_to_tensor (use_gpu ag) (Composite arrays) = Inl NameError
    \<and> step ag expand_tuple expand_dims multinomial g (Composite arrays) =
         Inl (case expand_tuple arrays of Inl e \<Rightarrow> e | Inr _ \<Rightarrow> NameError)
    \<and> rollout ag multinomial envs_step e g (Composite arrays) = Inl NameError
    \<and> boostrap ag reward_mb done_mb (Composite arrays) = Inl NameError
    \<and> ndarray_to_tensor True (Composite arrays) = Inr (Composite arrays)"
  using assms
  by (simp add: ndarray_to_tensor_cpu_tuple step_cpu_tuple rollout_cpu_tuple boostrap_cpu_tuple
      ndarray_to_tensor_gpu_tuple)

lemma boostrap_loop_length:
  "boostrap_loop ar gamma steps s r tv = Inr (s', tv') \<Longrightarrow>
   length tv' = length tv + length steps"
proof (induction steps arbitrary: s r tv)
  case Nil
  then show ?case by simp
next
  case (Cons step rest)
  obtain rw d where step: "step = (rw, d)" by (cases step)
  from Cons.prems show ?case
    by (auto simp: step alloc_def split: sum.splits dest!: Cons.IH)
qed

lemma boostrap_targets_length:
  "boostrap_targets ar gamma rs ds V = Inr tg \<Longrightarrow>
   ds \<noteq> [] \<and> length tg = min (length rs) (length ds)"
  by (auto simp: boostrap_targets_def alloc_def split: if_splits sum.splits
      dest!: boostrap_loop_length)

lemma boostrap_length:
  "boostrap ag rs ds ob = Inr tg \<Longrightarrow> ds \<noteq> [] \<and> length tg = min (length rs) (length ds)"
  by (auto simp: boostrap_def split: sum.splits prod.splits dest!: boostrap_targets_length)

lemma rollout_loop_transitions:
  "rollout_loop ag multinomial envs_step k (e, g, ob, om, am, rm, dm)
     = Inr (e', g', ob', om', am', rm', dm') \<Longrightarrow>
   \<exists>trs. spec_transitions ag multinomial envs_step k e g ob = Inr trs
     \<and> length trs = k
     \<and> om' = om @ map fst trs
     \<and> am' = am @ map (\<lambda>t. fst (snd t)) trs
     \<and> rm' = rm @ map (\<lambda>t. fst (snd (snd t))) trs
     \<and> dm' = dm @ map (\<lambda>t. done_tensor (snd (snd (snd t)))) trs"
proof (induction k arbitrary: e g ob om am rm dm)
  case 0
  then show ?case by simp
next
  case (Suc k)
  from Suc.prems obtain x where x: "ndarray_to_tensor (use_gpu ag) ob = Inr x"
    by (auto split: sum.splits)
  obtain logit v where ac: "actor_critic ag x = (logit, v)" by (cases "actor_critic ag x")
  obtain action g1 where sa: "sample_action multinomial g logit = (action, g1)"
    by (cases "sample_action multinomial g logit")
  obtain ob1 reward dn info e1 where es: "envs_step e action = ((ob1, reward, dn, info), e1)"
    by (cases "envs_step e action") auto
  from Suc.prems x ac sa es
  have "rollout_loop ag multinomial envs_step k
          (e1, g1, ob1, om @ [x], am @ [action], rm @ [reward], dm @ [done_tensor dn])
        = Inr (e', g', ob', om', am', rm', dm')"
    by simp
  from Suc.IH[OF this] obtain trs where
    "spec_transitions ag multinomial envs_step k e1 g1 ob1 = Inr trs" "length trs = k"
    "om' = (om @ [x]) @ map fst trs"
    "am' = (am @ [action]) @ map (\<lambda>t. fst (snd t)) trs"
    "rm' = (rm @ [reward]) @ map (\<lambda>t. fst (snd (snd t))) trs"
    "dm' = (dm @ [done_tensor dn]) @ map (\<lambda>t. done_tensor (snd (snd (snd t)))) trs"
    by blast
  then show ?case using x ac sa es by (simp add: Let_def)
qed

text \<open>
  Claim C8. A rollout that \<open>_rollout\<close> returns has exactly \<open>rollout_num_steps\<close> entries
  in each of the observation, action, reward and done buffers (and as many targets).
  The buffers are the four projections of one sequence of transitions, the one of the
  specification: entry \<open>t\<close> of every buffer is the batch of step \<open>t\<close> as the model, the
  sampler and the environments gave it, in their replica order.
\<close>

theorem rollout_length:
  assumes "rollout ag multinomial envs_step e g ob
             = Inr (obs_mb, action_mb, target_value_mb, ob', e', g')"
  shows "\<exists>reward_mb done_mb trs.
           rollout_loop ag multinomial envs_step (nat (rollout_num_steps ag))
               (e, g, ob, [], [], [], [])
             = Inr (e', g', ob', obs_mb, action_mb, reward_mb, done_mb)
         \<and> boostrap ag reward_mb done_mb ob' = Inr target_value_mb
         \<and> int (length obs_mb) = rollout_num_steps ag
         \<and> int (length action_mb) = rollout_num_steps ag
         \<and> int (length reward_mb) = rollout_num_steps ag
         \<and> int (length done_mb) = rollout_num_steps ag
         \<and> int (length target_value_mb) = rollout_num_steps ag
         \<and> spec_transitions ag multinomial envs_step (nat (rollout_num_steps ag)) e g ob
             = Inr trs
         \<and> obs_mb = map fst trs
         \<and> action_mb = map (\<lambda>t. fst (snd t)) trs
         \<and> reward_mb = map (\<lambda>t. fst (snd (snd t))) trs
         \<and> done_mb = map (\<lambda>t. done_tensor (snd (snd (snd t)))) trs"
proof -
  let ?n = "nat (rollout_num_steps ag)"
  from assms obtain reward_mb done_mb where
    loop: "rollout_loop ag multinomial envs_step ?n (e, g, ob, [], [], [], [])
             = Inr (e', g', ob', obs_mb, action_mb, reward_mb, done_mb)"
    and boot: "boostrap ag reward_mb done_mb ob' = Inr target_value_mb"
    by (auto simp: rollout_def split: sum.splits)
  from rollout_loop_transitions[OF loop] obtain trs where
    trs: "spec_transitions ag multinomial envs_step ?n e g ob = Inr trs" "length trs = ?n"
    "obs_mb = map fst trs" "action_mb = map (\<lambda>t. fst (snd t)) trs"
    "reward_mb = map (\<lambda>t. fst (snd (snd t))) trs"
    "done_mb = map (\<lambda>t. done_tensor (snd (snd (snd t)))) trs"
    by auto
  from boostrap_length[OF boot] trs have ne: "trs \<noteq> []" and lt: "length target_value_mb = ?n"
    by auto
  from ne trs(2) have pos: "int ?n = rollout_num_steps ag" by (cases "rollout_num_steps ag \<le> 0") auto
  show ?thesis
    using loop boot trs lt pos by auto
qed


theorem cpu_tuple_name_error_witness:
  "\<not> use_gpu \<lparr>rollout_num_steps = 5, discount = 99/100, ent_coef = 1/1000, val_coef = 1,
       use_gpu = False, actor_critic = (\<lambda>ob::nat observation. ([[0, 0]], [0]))\<rparr>
   \<and> [3, 4 :: nat] \<noteq> []
   \<and> ndarray_to_tensor False (Composite [3, 4 :: nat]) = Inl NameError
   \<and> step \<lparr>rollout_num_steps = 5, discount = 99/100, ent_coef = 1/1000, val_coef = 1,
       use_gpu = False, actor_critic = (\<lambda>ob::nat observation. ([[0, 0]], [0]))\<rparr>
       (\<lambda>xs. Inr (sum_list xs)) id (\<lambda>g p. ([0], g :: unit)) () (Composite [3, 4]) = Inl NameError
   \<and> rollout \<lparr>rollout_num_steps = 5, discount = 99/100, ent_coef = 1/1000, val_coef = 1,
       use_gpu = False, actor_critic = (\<lambda>ob::nat observation. ([[0, 0]], [0]))\<rparr>
       (\<lambda>g p. ([0], g :: unit)) (\<lambda>e a. ((Composite [3, 4], [1], [False], ()), e :: unit)) () ()
       (Composite [3, 4]) = Inl NameError
   \<and> boostrap \<lparr>rollout_num_steps = 5, discount = 99/100, ent_coef = 1/1000, val_coef = 1,
       use_gpu = False, actor_critic = (\<lambda>ob::nat observation. ([[0, 0]], [0]))\<rparr>
       [[1]] [[0]] (Composite [3, 4]) = Inl NameError
   \<and> ndarray_to_tensor True (Composite [3, 4 :: nat]) = Inr (Composite [3, 4])"
  using cpu_tuple_name_error[of
      "\<lparr>rollout_num_steps = 5, discount = 99/100, ent_coef = 1/1000, val_coef = 1,
        use_gpu = False, actor_critic = (\<lambda>ob::nat observation. ([[0, 0]], [0]))\<rparr>"
      "[3, 4 :: nat]" "\<lambda>xs. Inr (sum_list xs)" id "\<lambda>g p. ([0], g :: unit)" "()"
      "\<lambda>e a. ((Composite [3, 4], [1], [False], ()), e :: unit)" "()" "[[1]]" "[[0]]"]
  by simp

theorem rollout_length_witness:
  "rollout \<lparr>rollout_num_steps = 2, discount = 9/10, ent_coef = 1/1000, val_coef = 1,
       use_gpu = False, actor_critic = (\<lambda>ob::nat observation. ([[0]], [5]))\<rparr>
     (\<lambda>g p. ([0], Suc g)) (\<lambda>e a. ((Single (Suc e), [1], [False], ()), Suc e)) 0 0 (Single 0)
   = Inr ([Single 0, Single 1], [[0], [0]], [[19/10 + 81/20], [11/2]], Single 2, 2, 2)
   \<and> (\<exists>reward_mb done_mb trs.
         rollout_loop \<lparr>rollout_num_steps = 2, discount = 9/10, ent_coef = 1/1000, val_coef = 1,
               use_gpu = False, actor_critic = (\<lambda>ob::nat observation. ([[0]], [5]))\<rparr>
             (\<lambda>g p. ([0], Suc g)) (\<lambda>e a. ((Single (Suc e), [1], [False], ()), Suc e)) 2
             (0, 0, Single 0, [], [], [], [])
           = Inr (2, 2, Single 2, [Single 0, Single 1], [[0], [0]], reward_mb, done_mb)
       \<and> length reward_mb = 2 \<and> length done_mb = 2
       \<and> spec_transitions \<lparr>rollout_num_steps = 2, discount = 9/10, ent_coef = 1/1000,
               val_coef = 1, use_gpu = False,
               actor_critic = (\<lambda>ob::nat observation. ([[0]], [5]))\<rparr>
             (\<lambda>g p. ([0], Suc g)) (\<lambda>e a. ((Single (Suc e), [1], [False], ()), Suc e)) 2 0 0
             (Single 0) = Inr trs
       \<and> [Single 0, Single 1] = map fst trs)"
proof -
  let ?ag = "\<lparr>rollout_num_steps = 2, discount = 9/10, ent_coef = 1/1000, val_coef = 1,
       use_gpu = False, actor_critic = (\<lambda>ob::nat observation. ([[0 :: real]], [5 :: real]))\<rparr>"
  let ?m = "\<lambda>(g :: nat) (p :: real list list). ([0 :: nat], Suc g)"
  let ?es = "\<lambda>(e :: nat) (a :: nat list).
               ((Single (Suc e), [1 :: real], [False], ()), Suc e)"
  have r: "rollout ?ag ?m ?es 0 0 (Single 0)
      = Inr ([Single 0, Single 1], [[0], [0]], [[19/10 + 81/20], [11/2]], Single 2, 2, 2)"
    by (simp add: rollout_def numeral_2_eq_2 ndarray_to_tensor_def sample_action_def
        done_tensor_def boostrap_def boostrap_targets_def tmul_def tadd_def rsub_def smul_def
        alloc_def imul_def unsqueeze_def exact_arithmetic_def)
  from rollout_length[OF r] show ?thesis using r by auto
qed

section \<open>Properties of the worker\<close>

lemma worker_dispatch_step:
  "env_step env s data = ((ob, reward, done, info), s1) \<Longrightarrow>
   worker_dispatch env s (''step'', data) =
     Running (if done then snd (env_reset env s1) else s1)
       (StepReply (if done then fst (env_reset env s1) else ob) reward done info)"
  by (simp add: worker_dispatch_def split: prod.splits)

text \<open>
  Claim C3. When the step of the environment answers \<open>done\<close>, the worker resets the
  environment at once and its reply carries the observation of the reset, with the
  reward, the done flag and the info of the step; otherwise the reply carries the
  observation of the step. The loop goes on from the environment state after the reset
  (or after the step) with this one reply sent.
\<close>

theorem worker_step_resets:
  assumes "env_step env s data = ((ob, reward, done, info), s1)"
  shows "(done \<longrightarrow> worker_dispatch env s (''step'', data) =
            Running (snd (env_reset env s1)) (StepReply (fst (env_reset env s1)) reward True info))
       \<and> (\<not> done \<longrightarrow> worker_dispatch env s (''step'', data) =
            Running s1 (StepReply ob reward False info))
       \<and> worker env s ((''step'', data) # msgs) sent =
           worker env (if done then snd (env_reset env s1) else s1) msgs
             (sent @ [StepReply (if done then fst (env_reset env s1) else ob) reward done info])"
  using worker_dispatch_step[OF assms] by simp

text \<open>
  The counting environment is done when the action is 0: the terminal observation 3 is
  replaced by the observation 0 of the reset.
\<close>

theorem worker_step_resets_witness:
  "env_step counting_env 3 0 = ((Single (Num 3), 0, True, ()), 4)
   \<and> worker_dispatch counting_env 3 (''step'', 0)
       = Running 0 (StepReply (Single (Num 0)) 0 True ())
   \<and> worker counting_env 3 [(''step'', 0)] []
       = (Waiting 0, [StepReply (Single (Num 0)) 0 True ()])"
proof -
  have h: "env_step counting_env 3 0 = ((Single (Num 3), 0, True, ()), 4)"
    by (simp add: counting_env_def)
  from worker_step_resets[OF h, of "[]" "[]"] h show ?thesis
    by (simp add: counting_env_def)
qed

lemma worker_dispatch_serviced:
  "serviced (cmd, data) \<Longrightarrow> \<exists>s' r. worker_dispatch env s (cmd, data) = Running s' r"
  by (auto simp: serviced_def worker_dispatch_def split: prod.splits)

lemma worker_dispatch_close:
  "worker_dispatch env s (''close'', data) = Terminated (env_close env s)"
  by (simp add: worker_dispatch_def)

lemma worker_dispatch_other:
  "\<not> serviced (cmd, data) \<Longrightarrow> cmd \<noteq> ''close'' \<Longrightarrow>
   worker_dispatch env s (cmd, data) = Crashed NotImplementedError"
  by (simp add: serviced_def worker_dispatch_def)

lemma worker_dispatch_cases:
  "worker_dispatch env s (cmd, data) =
     (if serviced (cmd, data) then worker_dispatch env s (cmd, data)
      else if cmd = ''close'' then Terminated (env_close env s)
      else Crashed NotImplementedError)"
  by (simp add: worker_dispatch_close worker_dispatch_other)

lemma worker_end:
  "(case dropWhile serviced msgs of
      [] \<Rightarrow> \<exists>s'. fst (worker env s msgs sent) = Waiting s'
    | m # _ \<Rightarrow> if fst m = ''close'' then \<exists>s'. fst (worker env s msgs sent) = Closed s'
               else fst (worker env s msgs sent) = Raised NotImplementedError)
   \<and> length (snd (worker env s msgs sent)) = length sent + length (takeWhile serviced msgs)"
proof (induction msgs arbitrary: s sent)
  case Nil
  then show ?case by simp
next
  case (Cons m msgs)
  obtain cmd data where m: "m = (cmd, data)" by (cases m)
  show ?case
  proof (cases "serviced m")
    case True
    with m obtain s' r where "worker_dispatch env s m = Running s' r"
      using worker_dispatch_serviced[of cmd data env s] by auto
    then have w: "worker env s (m # msgs) sent = worker env s' msgs (sent @ [r])" by simp
    from True have dw: "dropWhile serviced (m # msgs) = dropWhile serviced msgs"
      and tw: "length (takeWhile serviced (m # msgs)) = Suc (length (takeWhile serviced msgs))"
      by simp_all
    have "length (sent @ [r]) + length (takeWhile serviced msgs)
          = length sent + Suc (length (takeWhile serviced msgs))" by simp
    with Cons.IH[of s' "sent @ [r]"] show ?thesis unfolding w dw tw by (simp only:)
  next
    case False
    show ?thesis
    proof (cases "cmd = ''close''")
      case True
      with False m show ?thesis by (simp add: worker_dispatch_close)
    next
      case c: False
      with False m show ?thesis by (simp add: worker_dispatch_other)
    qed
  qed
qed

text \<open>
  Claim C7. What the dispatch does for each command: on \<open>step\<close> it calls \<open>env.step\<close> with
  the data, and \<open>env.reset\<close> after it when the step is done, and sends the tuple; on
  \<open>reset\<close> it calls \<open>env.reset\<close> and sends the observation; on \<open>get_spaces\<close> it sends the
  two spaces and leaves the environment as it is. After each of the three the worker
  stays in its loop, from the new environment state and with this one reply added. It
  leaves the loop on \<open>close\<close>, after \<open>env.close()\<close>, and on no other command; on every
  other tag it raises \<open>NotImplementedError\<close>, and this is the only exception of the
  dispatch. For the loop: the worker answers the commands before the first one that is
  not serviced; it waits when there is none, stops when that one is \<open>close\<close>, and
  otherwise ends with the exception, which nothing catches: no later command is read
  and no reply is sent for it.
\<close>

theorem worker_protocol:
  "(cmd = ''step'' \<longrightarrow>
      worker_dispatch env s (cmd, data) =
        (case env_step env s data of
           ((ob, reward, done, info), s1) \<Rightarrow>
             if done then
               Running (snd (env_reset env s1)) (StepReply (fst (env_reset env s1)) reward done info)
             else Running s1 (StepReply ob reward done info)))
   \<and> (cmd = ''reset'' \<longrightarrow>
        worker_dispatch env s (cmd, data) =
          Running (snd (env_reset env s)) (ResetReply (fst (env_reset env s))))
   \<and> (cmd = ''get_spaces'' \<longrightarrow>
        worker_dispatch env s (cmd, data) =
          Running s (SpacesReply (action_space env s) (observation_space env s)))
   \<and> (serviced (cmd, data) \<longrightarrow> (\<exists>s' r. worker_dispatch env s (cmd, data) = Running s' r))
   \<and> (cmd = ''close'' \<longrightarrow> worker_dispatch env s (cmd, data) = Terminated (env_close env s))
   \<and> (\<not> serviced (cmd, data) \<and> cmd \<noteq> ''close'' \<longrightarrow>
        worker_dispatch env s (cmd, data) = Crashed NotImplementedError)
   \<and> (\<forall>e. worker_dispatch env s (cmd, data) = Crashed e \<longrightarrow>
        e = NotImplementedError \<and> \<not> serviced (cmd, data) \<and> cmd \<noteq> ''close'')
   \<and> (\<forall>s'. worker_dispatch env s (cmd, data) = Terminated s' \<longrightarrow> cmd = ''close'')
   \<and> (\<forall>s' r. worker_dispatch env s (cmd, data) = Running s' r \<longrightarrow>
        worker env s ((cmd, data) # msgs) sent = worker env s' msgs (sent @ [r]))
   \<and> (cmd = ''close'' \<longrightarrow>
        worker env s ((cmd, data) # msgs) sent = (Closed (env_close env s), sent))
   \<and> (\<not> serviced (cmd, data) \<and> cmd \<noteq> ''close'' \<longrightarrow>
        worker env s ((cmd, data) # msgs) sent = (Raised NotImplementedError, sent))
   \<and> (case dropWhile serviced msgs of
        [] \<Rightarrow> \<exists>s'. fst (worker env s msgs sent) = Waiting s'
      | m # _ \<Rightarrow> if fst m = ''close'' then \<exists>s'. fst (worker env s msgs sent) = Closed s'
                 else fst (worker env s msgs sent) = Raised NotImplementedError)
   \<and> length (snd (worker env s msgs sent)) = length sent + length (takeWhile serviced msgs)"
proof -
  have st: "cmd = ''step'' \<longrightarrow>
      worker_dispatch env s (cmd, data) =
        (case env_step env s data of
           ((ob, reward, done, info), s1) \<Rightarrow>
             if done then
               Running (snd (env_reset env s1)) (StepReply (fst (env_reset env s1)) reward done info)
             else Running s1 (StepReply ob reward done info))"
    by (simp add: worker_dispatch_def split: prod.splits)
  have rs: "cmd = ''reset'' \<longrightarrow>
        worker_dispatch env s (cmd, data) =
          Running (snd (env_reset env s)) (ResetReply (fst (env_reset env s)))"
    by (simp add: worker_dispatch_def split: prod.splits)
  have gs: "cmd = ''get_spaces'' \<longrightarrow>
        worker_dispatch env s (cmd, data) =
          Running s (SpacesReply (action_space env s) (observation_space env s))"
    by (simp add: worker_dispatch_def)
  have a: "serviced (cmd, data) \<longrightarrow> (\<exists>s' r. worker_dispatch env s (cmd, data) = Running s' r)"
    using worker_dispatch_serviced[of cmd data env s] by auto
  have b: "cmd = ''close'' \<longrightarrow> worker_dispatch env s (cmd, data) = Terminated (env_close env s)"
    by (simp add: worker_dispatch_close)
  have c: "\<not> serviced (cmd, data) \<and> cmd \<noteq> ''close'' \<longrightarrow>
        worker_dispatch env s (cmd, data) = Crashed NotImplementedError"
    by (simp add: worker_dispatch_other)
  have d: "\<forall>e. worker_dispatch env s (cmd, data) = Crashed e \<longrightarrow>
        e = NotImplementedError \<and> \<not> serviced (cmd, data) \<and> cmd \<noteq> ''close''"
    using a b c by (cases "serviced (cmd, data)"; cases "cmd = ''close''") auto
  have e: "\<forall>s'. worker_dispatch env s (cmd, data) = Terminated s' \<longrightarrow> cmd = ''close''"
    using a c by (cases "serviced (cmd, data)"; cases "cmd = ''close''") auto
  have l1: "\<forall>s' r. worker_dispatch env s (cmd, data) = Running s' r \<longrightarrow>
        worker env s ((cmd, data) # msgs) sent = worker env s' msgs (sent @ [r])"
    by simp
  have l2: "cmd = ''close'' \<longrightarrow>
        worker env s ((cmd, data) # msgs) sent = (Closed (env_close env s), sent)"
    by (simp add: worker_dispatch_close)
  have l3: "\<not> serviced (cmd, data) \<and> cmd \<noteq> ''close'' \<longrightarrow>
        worker env s ((cmd, data) # msgs) sent = (Raised NotImplementedError, sent)"
    by (simp add: worker_dispatch_other)
  from worker_end[where msgs = msgs and env = env and s = s and sent = sent]
  have w1: "case dropWhile serviced msgs of
        [] \<Rightarrow> \<exists>s'. fst (worker env s msgs sent) = Waiting s'
      | m # _ \<Rightarrow> if fst m = ''close'' then \<exists>s'. fst (worker env s msgs sent) = Closed s'
                 else fst (worker env s msgs sent) = Raised NotImplementedError"
    and w2: "length (snd (worker env s msgs sent))
               = length sent + length (takeWhile serviced msgs)"
    by (rule conjunct1, rule conjunct2)
  show ?thesis by (intro conjI st rs gs a b c d e l1 l2 l3 w1 w2)
qed

text \<open>
  On the environment that records its calls: a step, a step that is done and so
  followed by a reset, a reset, \<open>get_spaces\<close>, \<open>close\<close>, and the tag \<open>pause\<close>, which is
  not a command. In the loop, the worker answers the step before \<open>pause\<close> and ends with
  the exception, and the reset after it is never read; after \<open>close\<close> the reset is not
  read either.
\<close>

theorem worker_protocol_witness:
  "worker_dispatch logging_env [] (''step'', 2)
       = Running [''step''] (StepReply (Single (Num 2)) 2 False ())
   \<and> worker_dispatch logging_env [] (''step'', 0)
       = Running [''step'', ''reset''] (StepReply (Single (Num 0)) 0 True ())
   \<and> worker_dispatch logging_env [] (''reset'', 7)
       = Running [''reset''] (ResetReply (Single (Num 0)))
   \<and> worker_dispatch logging_env [] (''get_spaces'', 7)
       = Running [] (SpacesReply ''Discrete'' ''Box'')
   \<and> worker_dispatch logging_env [] (''close'', 7) = Terminated [''close'']
   \<and> worker_dispatch logging_env [] (''pause'', 7) = Crashed NotImplementedError
   \<and> worker logging_env [] ((''close'', 7) # [(''step'', 1)]) [] = (Closed [''close''], [])
   \<and> worker logging_env [] ((''pause'', 7) # [(''reset'', 7)]) []
       = (Raised NotImplementedError, [])
   \<and> fst (worker logging_env [] [(''step'', 1), (''pause'', 0), (''reset'', 0)] [])
       = Raised NotImplementedError
   \<and> length (snd (worker logging_env [] [(''step'', 1), (''pause'', 0), (''reset'', 0)] [])) = 1
   \<and> worker logging_env [] ((''step'', 0) # [(''get_spaces'', 0), (''close'', 0), (''reset'', 0)]) []
       = (Closed [''step'', ''reset'', ''close''],
          [StepReply (Single (Num 0)) 0 True (), SpacesReply ''Discrete'' ''Box''])"
proof -
  have 1: "worker_dispatch logging_env [] (''step'', 2)
       = Running [''step''] (StepReply (Single (Num 2)) 2 False ())"
    using worker_protocol[of "''step''" logging_env "[]" 2 "[]" "[]"]
    by (simp add: logging_env_def)
  have 2: "worker_dispatch logging_env [] (''step'', 0)
       = Running [''step'', ''reset''] (StepReply (Single (Num 0)) 0 True ())"
    using worker_protocol[of "''step''" logging_env "[]" 0 "[]" "[]"]
    by (simp add: logging_env_def)
  have 3: "worker_dispatch logging_env [] (''reset'', 7)
       = Running [''reset''] (ResetReply (Single (Num 0)))"
    using worker_protocol[of "''reset''" logging_env "[]" 7 "[]" "[]"]
    by (simp add: logging_env_def)
  have 4: "worker_dispatch logging_env [] (''get_spaces'', 7)
       = Running [] (SpacesReply ''Discrete'' ''Box'')"
    using worker_protocol[of "''get_spaces''" logging_env "[]" 7 "[]" "[]"]
    by (simp add: logging_env_def)
  have 5: "worker_dispatch logging_env [] (''close'', 7) = Terminated [''close'']
     \<and> worker logging_env [] ((''close'', 7) # [(''step'', 1)]) [] = (Closed [''close''], [])"
    using worker_protocol[of "''close''" logging_env "[]" 7 "[(''step'', 1)]" "[]"]
    by (simp add: logging_env_def)
  have 6: "worker_dispatch logging_env [] (''pause'', 7) = Crashed NotImplementedError
     \<and> worker logging_env [] ((''pause'', 7) # [(''reset'', 7)]) []
       = (Raised NotImplementedError, [])"
    using worker_protocol[of "''pause''" logging_env "[]" 7 "[(''reset'', 7)]" "[]"]
    by (simp add: serviced_def)
  have 7: "fst (worker logging_env [] [(''step'', 1), (''pause'', 0), (''reset'', 0)] [])
       = Raised NotImplementedError
   \<and> length (snd (worker logging_env [] [(''step'', 1), (''pause'', 0), (''reset'', 0)] [])) = 1"
    using worker_protocol[of "''pause''" logging_env "[]" 7
      "[(''step'', 1), (''pause'', 0), (''reset'', 0)]" "[]"]
    by (simp add: serviced_def)
  have 8: "worker logging_env [] ((''step'', 0) # [(''get_spaces'', 0), (''close'', 0), (''reset'', 0)]) []
       = worker logging_env [''step'', ''reset''] [(''get_spaces'', 0), (''close'', 0), (''reset'', 0)]
           [StepReply (Single (Num 0)) 0 True ()]"
    using worker_protocol[of "''step''" logging_env "[]" 0
        "[(''get_spaces'', 0), (''close'', 0), (''reset'', 0)]" "[]"]
    by (simp add: logging_env_def)
  have 9: "worker logging_env [''step'', ''reset''] ((''get_spaces'', 0) # [(''close'', 0), (''reset'', 0)])
           [StepReply (Single (Num 0)) 0 True ()]
       = worker logging_env [''step'', ''reset''] [(''close'', 0), (''reset'', 0)]
           [StepReply (Single (Num 0)) 0 True (), SpacesReply ''Discrete'' ''Box'']"
    using worker_protocol[of "''get_spaces''" logging_env "[''step'', ''reset'']" 0
        "[(''close'', 0), (''reset'', 0)]" "[StepReply (Single (Num 0)) 0 True ()]"]
    by (simp add: logging_env_def)
  have 10: "worker logging_env [''step'', ''reset''] ((''close'', 0) # [(''reset'', 0)])
           [StepReply (Single (Num 0)) 0 True (), SpacesReply ''Discrete'' ''Box'']
       = (Closed [''step'', ''reset'', ''close''],
          [StepReply (Single (Num 0)) 0 True (), SpacesReply ''Discrete'' ''Box''])"
    using worker_protocol[of "''close''" logging_env "[''step'', ''reset'']" 0
        "[(''reset'', 0)]" "[StepReply (Single (Num 0)) 0 True (), SpacesReply ''Discrete'' ''Box'']"]
    by (simp add: logging_env_def)
  from 1 2 3 4 5 6 7 8 9 10 show ?thesis by (simp only:)
qed

section \<open>Properties of the parallel environment wrapper\<close>

lemma worker_dispatch_answer:
  "\<exists>s'. worker_dispatch env s (''step'', action) = Running s' (step_answer env s action)"
proof -
  obtain ob reward dn info s1 where "env_step env s action = ((ob, reward, dn, info), s1)"
    by (cases "env_step env s action") auto
  then show ?thesis using worker_dispatch_step[of env s action ob reward dn info s1]
    by (simp add: step_answer_def)
qed

lemma run_process_step:
  assumes "state p = Waiting s" "inbox p = [(''step'', action)]"
  shows "\<exists>s'. run_process p =
           p\<lparr>state := Waiting s', inbox := [],
             outbox := outbox p @ [step_answer (environment p) s action]\<rparr>"
proof -
  obtain s' where "worker_dispatch (environment p) s (''step'', action)
      = Running s' (step_answer (environment p) s action)"
    using worker_dispatch_answer[of "environment p" s action] by auto
  with assms show ?thesis by (auto simp: run_process_def)
qed

lemma run_process_waiting:
  "state p = Waiting s \<Longrightarrow> inbox p = [] \<Longrightarrow> run_process p = p"
  by (simp add: run_process_def)

lemma length_run_schedule: "length (run_schedule schedule ps) = length ps"
  by (induction schedule arbitrary: ps) simp_all

lemma run_schedule_nth:
  "i < length ps \<Longrightarrow>
   run_schedule schedule ps ! i = (run_process ^^ count_list schedule i) (ps ! i)"
proof (induction schedule arbitrary: ps)
  case Nil
  then show ?case by simp
next
  case (Cons j schedule)
  show ?case
  proof (cases "j = i")
    case True
    with Cons show ?thesis by (simp add: funpow_swap1)
  next
    case False
    with Cons show ?thesis by simp
  qed
qed

lemma run_process_answered:
  assumes "state p = Waiting s" "inbox p = [(''step'', action)]" "0 < k"
  shows "\<exists>s'. (run_process ^^ k) p =
           p\<lparr>state := Waiting s', inbox := [],
             outbox := outbox p @ [step_answer (environment p) s action]\<rparr>"
  using assms(3)
proof (induction k)
  case 0
  then show ?case by simp
next
  case (Suc k)
  show ?case
  proof (cases k)
    case 0
    then show ?thesis using run_process_step[OF assms(1,2)] by simp
  next
    case (Suc k')
    with Suc.IH obtain s' where
      "(run_process ^^ k) p = p\<lparr>state := Waiting s', inbox := [],
             outbox := outbox p @ [step_answer (environment p) s action]\<rparr>" by auto
    then show ?thesis by (auto simp: run_process_waiting)
  qed
qed

lemma length_send_steps: "length (send_steps ps actions) = length ps"
  by (induction ps actions rule: send_steps.induct) simp_all

lemma send_steps_nth:
  "length actions = length ps \<Longrightarrow> i < length ps \<Longrightarrow>
   send_steps ps actions ! i = (ps ! i)\<lparr>inbox := inbox (ps ! i) @ [(''step'', actions ! i)]\<rparr>"
proof (induction ps actions arbitrary: i rule: send_steps.induct)
  case (1 p ps action actions)
  then show ?case by (cases i) simp_all
qed simp_all

lemma recv_all_heads:
  "list_all (\<lambda>p. outbox p \<noteq> []) ps \<Longrightarrow>
   recv_all ps = Some (map (\<lambda>p. hd (outbox p)) ps, map (\<lambda>p. p\<lparr>outbox := tl (outbox p)\<rparr>) ps)"
  by (induction ps) (auto split: list.splits)

lemma idle_state: "idle p \<Longrightarrow> state p = Waiting (env_state p) \<and> inbox p = [] \<and> outbox p = []"
  by (auto simp: idle_def env_state_def split: worker_state.splits)

lemma scheduled_answers:
  assumes len: "length actions = length pipes"
    and idle: "list_all idle pipes"
    and fair: "\<forall>i<length pipes. i \<in> set schedule"
    and i: "i < length pipes"
  shows "outbox (run_schedule schedule (send_steps pipes actions) ! i)
           = [step_answer (environment (pipes ! i)) (env_state (pipes ! i)) (actions ! i)]"
proof -
  let ?p = "send_steps pipes actions ! i"
  from idle i have id: "idle (pipes ! i)" by (simp add: list_all_length)
  note st = idle_state[OF id]
  have p: "?p = (pipes ! i)\<lparr>inbox := [(''step'', actions ! i)]\<rparr>"
    using send_steps_nth[OF len i] st by simp
  have k: "0 < count_list schedule i"
    using fair i count_list_0_iff[of schedule i] by auto
  have "state ?p = Waiting (env_state (pipes ! i))" "inbox ?p = [(''step'', actions ! i)]"
    using p st by simp_all
  from run_process_answered[OF this k] obtain s' where
    "(run_process ^^ count_list schedule i) ?p = ?p\<lparr>state := Waiting s', inbox := [],
        outbox := outbox ?p @ [step_answer (environment ?p) (env_state (pipes ! i)) (actions ! i)]\<rparr>"
    by blast
  moreover have "run_schedule schedule (send_steps pipes actions) ! i
      = (run_process ^^ count_list schedule i) ?p"
    using i by (simp add: run_schedule_nth length_send_steps)
  ultimately show ?thesis using p st by simp
qed

lemma parallel_step_results:
  assumes len: "length actions = length pipes"
    and idle: "list_all idle pipes"
    and fair: "\<forall>i<length pipes. i \<in> set schedule"
  shows "\<exists>pipes'. parallel_step schedule pipes actions =
           Some (batch_results
                   (map2 (\<lambda>p action. step_answer (environment p) (env_state p) action)
                      pipes actions), pipes')"
proof -
  let ?ps = "run_schedule schedule (send_steps pipes actions)"
  have lps: "length ?ps = length pipes" by (simp add: length_run_schedule length_send_steps)
  have ob: "\<forall>i<length pipes. outbox (?ps ! i)
      = [step_answer (environment (pipes ! i)) (env_state (pipes ! i)) (actions ! i)]"
    using scheduled_answers[OF len idle fair] by blast
  then have "list_all (\<lambda>p. outbox p \<noteq> []) ?ps" using lps by (simp add: list_all_length)
  from recv_all_heads[OF this]
  have rv: "recv_all ?ps = Some (map (\<lambda>p. hd (outbox p)) ?ps,
      map (\<lambda>p. p\<lparr>outbox := tl (outbox p)\<rparr>) ?ps)" .
  have "map (\<lambda>p. hd (outbox p)) ?ps
      = map2 (\<lambda>p action. step_answer (environment p) (env_state p) action) pipes actions"
  proof (rule nth_equalityI)
    show "length (map (\<lambda>p. hd (outbox p)) ?ps)
        = length (map2 (\<lambda>p action. step_answer (environment p) (env_state p) action)
            pipes actions)"
      using lps len by simp
  next
    fix i assume "i < length (map (\<lambda>p. hd (outbox p)) ?ps)"
    then have i: "i < length pipes" using lps by simp
    with ob have "hd (outbox (?ps ! i))
        = step_answer (environment (pipes ! i)) (env_state (pipes ! i)) (actions ! i)" by simp
    then show "map (\<lambda>p. hd (outbox p)) ?ps ! i
        = map2 (\<lambda>p action. step_answer (environment p) (env_state p) action) pipes actions ! i"
      using i lps len by simp
  qed
  with rv show ?thesis by (simp add: parallel_step_def)
qed


lemma comprehension_map: "comprehension f xs = Inr ys \<Longrightarrow> map f xs = map Inr ys"
  by (induction xs arbitrary: ys) (auto split: sum.splits)

lemma np_stack_Inr: "np_stack arrays = Inr b \<Longrightarrow> b = Arr arrays"
  by (auto simp: np_stack_def split: if_splits)

lemma unzip_results_nth:
  "unzip_results rs = Inr (obs, rewards, dones, infos) \<Longrightarrow>
   length obs = length rs \<and> length rewards = length rs \<and> length dones = length rs
   \<and> length infos = length rs
   \<and> (\<forall>i<length rs. rs ! i = StepReply (obs ! i) (rewards ! i) (dones ! i) (infos ! i))"
proof (induction rs arbitrary: obs rewards dones infos rule: unzip_results.induct)
  case 1
  then show ?case by simp
next
  case (2 ob reward dn info rs)
  from "2.prems" obtain obs' rewards' dones' infos' where
    r: "unzip_results rs = Inr (obs', rewards', dones', infos')"
    and e: "obs = ob # obs'" "rewards = reward # rewards'" "dones = dn # dones'"
       "infos = info # infos'"
    by (auto split: sum.splits)
  from "2.IH"[OF r] e show ?case by (auto simp: nth_Cons split: nat.splits)
qed simp_all

lemma stack_obs_in_order: "stack_obs obs = Inr batch \<Longrightarrow> stacked_in_order obs batch"
proof (cases obs)
  case Nil
  assume "stack_obs obs = Inr batch"
  with Nil show ?thesis by (simp add: stack_obs_def)
next
  case (Cons ob0 rest)
  assume st: "stack_obs obs = Inr batch"
  show ?thesis
  proof (cases ob0)
    case (Single a)
    with st Cons obtain arrays b where c: "comprehension asanyarray obs = Inr arrays"
      and n: "np_stack arrays = Inr b" and b: "batch = Single b"
      by (auto simp: stack_obs_def split: sum.splits)
    from np_stack_Inr[OF n] comprehension_map[OF c] b Cons Single show ?thesis
      by (simp add: stacked_in_order_def)
  next
    case (Composite parts)
    let ?f = "\<lambda>c. case comprehension (\<lambda>ob. item ob c) obs of
                    Inl e \<Rightarrow> Inl e | Inr column \<Rightarrow> np_stack column"
    from st Cons Composite obtain columns where
      c: "comprehension ?f [0 ..< length parts] = Inr columns" and b: "batch = Composite columns"
      by (auto simp: stack_obs_def split: sum.splits)
    from comprehension_map[OF c] have m: "map ?f [0 ..< length parts] = map Inr columns" .
    from map_eq_imp_length_eq[OF m] have len: "length columns = length parts" by simp
    have "case columns ! k of Arr column \<Rightarrow> map (\<lambda>ob. item ob k) obs = map Inr column
          | Num v \<Rightarrow> False" if k: "k < length parts" for k
    proof -
      from m have "map ?f [0 ..< length parts] ! k = map Inr columns ! k" by simp
      with k len have "?f k = Inr (columns ! k)" by simp
      then obtain column where cc: "comprehension (\<lambda>ob. item ob k) obs = Inr column"
        and n: "np_stack column = Inr (columns ! k)"
        by (auto split: sum.splits)
      from np_stack_Inr[OF n] comprehension_map[OF cc] show ?thesis by simp
    qed
    then have "list_all
                   (\<lambda>c. case columns ! c of
                           Arr column \<Rightarrow> map (\<lambda>ob. item ob c) obs = map Inr column
                         | Num v \<Rightarrow> False)
                   [0 ..< length parts]"
      by (simp add: list_all_iff)
    with len b show ?thesis unfolding stacked_in_order_def Cons Composite by simp
  qed
qed

lemma batch_results_slots:
  "batch_results results = Inr (batch, rewards, dones, infos) \<Longrightarrow>
   length rewards = length results \<and> length dones = length results
   \<and> length infos = length results
   \<and> (\<exists>obs. length obs = length results \<and> stacked_in_order obs batch
        \<and> (\<forall>i<length results.
              results ! i = StepReply (obs ! i) (rewards ! i) (dones ! i) (infos ! i)))"
proof -
  assume a: "batch_results results = Inr (batch, rewards, dones, infos)"
  then obtain obs where u: "unzip_results results = Inr (obs, rewards, dones, infos)"
    and s: "stack_obs obs = Inr batch"
    by (auto simp: batch_results_def split: if_splits sum.splits)
  from unzip_results_nth[OF u] stack_obs_in_order[OF s] show ?thesis by blast
qed


lemma comprehension_Inr:
  "(\<And>x. x \<in> set xs \<Longrightarrow> f x = Inr (g x)) \<Longrightarrow> comprehension f xs = Inr (map g xs)"
  by (induction xs) simp_all

lemma unzip_results_replies:
  "length obs = length rs \<Longrightarrow> length rewards = length rs \<Longrightarrow> length dones = length rs \<Longrightarrow>
   length infos = length rs \<Longrightarrow>
   (\<And>i. i < length rs \<Longrightarrow> rs ! i = StepReply (obs ! i) (rewards ! i) (dones ! i) (infos ! i)) \<Longrightarrow>
   unzip_results rs = Inr (obs, rewards, dones, infos)"
proof (induction rs arbitrary: obs rewards dones infos)
  case Nil
  then show ?case by simp
next
  case (Cons r rs)
  from Cons.prems(1-4) obtain ob obs' rw rewards' dn dones' inf infos' where
    e: "obs = ob # obs'" "rewards = rw # rewards'" "dones = dn # dones'" "infos = inf # infos'"
    by (cases obs; cases rewards; cases dones; cases infos) auto
  from Cons.prems(5)[of 0] e have r: "r = StepReply ob rw dn inf" by simp
  have "unzip_results rs = Inr (obs', rewards', dones', infos')"
  proof (rule Cons.IH)
    fix i assume "i < length rs"
    with Cons.prems(5)[of "Suc i"] e
    show "rs ! i = StepReply (obs' ! i) (rewards' ! i) (dones' ! i) (infos' ! i)" by simp
  qed (use Cons.prems(1-4) e in simp_all)
  with r e show ?case by simp
qed

lemma stack_obs_arrays:
  assumes "arrays \<noteq> []" "\<forall>i<length arrays. shape (arrays ! i) = shape (arrays ! 0)"
  shows "stack_obs (map Single arrays) = Inr (Single (Arr arrays))"
proof -
  from assms(1) obtain a rest where ar: "arrays = a # rest" by (cases arrays) auto
  have c: "comprehension asanyarray (map Single arrays) = Inr (map (\<lambda>ob. case ob of Single b \<Rightarrow> b | Composite ps \<Rightarrow> Arr ps) (map Single arrays))"
    by (rule comprehension_Inr) (auto simp: asanyarray_def)
  have c': "comprehension asanyarray (map Single arrays) = Inr arrays"
    unfolding c by (simp add: comp_def)
  have "list_all (\<lambda>x. shape x = shape (hd arrays)) arrays"
    using assms(2) ar by (auto simp: list_all_length hd_conv_nth)
  then have n: "np_stack arrays = Inr (Arr arrays)" using assms(1) by (simp add: np_stack_def)
  show ?thesis using c' n unfolding ar stack_obs_def by simp
qed

lemma stack_obs_tuples:
  assumes "tuples \<noteq> []"
    and "\<forall>i<length tuples. length (tuples ! i) = n
            \<and> (\<forall>c<n. shape (tuples ! i ! c) = shape (tuples ! 0 ! c))"
  shows "stack_obs (map Composite tuples)
           = Inr (Composite (map (\<lambda>c. Arr (map (\<lambda>t. t ! c) tuples)) [0 ..< n]))"
proof -
  from assms(1) obtain t0 rest where tu: "tuples = t0 # rest" by (cases tuples) auto
  with assms(2) have l0: "length t0 = n" by auto
  let ?obs = "map Composite tuples"
  let ?f = "\<lambda>c. case comprehension (\<lambda>ob. item ob c) ?obs of
                    Inl e \<Rightarrow> Inl e | Inr column \<Rightarrow> np_stack column"
  have col: "?f c = Inr (Arr (map (\<lambda>t. t ! c) tuples))" if c: "c \<in> set [0 ..< n]" for c
  proof -
    from c have cn: "c < n" by simp
    have len: "\<And>t. t \<in> set tuples \<Longrightarrow> length t = n"
      using assms(2) by (auto simp: in_set_conv_nth)
    have "comprehension (\<lambda>ob. item ob c) ?obs
            = Inr (map (\<lambda>ob. case ob of Composite ps \<Rightarrow> ps ! c | Single a \<Rightarrow> a) ?obs)"
      by (rule comprehension_Inr) (use len cn in \<open>auto simp: item_def\<close>)
    then have cc: "comprehension (\<lambda>ob. item ob c) ?obs = Inr (map (\<lambda>t. t ! c) tuples)"
      by (simp add: comp_def)
    have hd: "hd (map (\<lambda>t. t ! c) tuples) = tuples ! 0 ! c"
      using assms(1) by (simp add: hd_map hd_conv_nth)
    have "list_all (\<lambda>x. shape x = shape (hd (map (\<lambda>t. t ! c) tuples))) (map (\<lambda>t. t ! c) tuples)"
      unfolding hd using assms(2) cn by (simp add: list_all_length)
    then have "np_stack (map (\<lambda>t. t ! c) tuples) = Inr (Arr (map (\<lambda>t. t ! c) tuples))"
      using assms(1) by (simp add: np_stack_def)
    with cc show ?thesis by simp
  qed
  have "comprehension ?f [0 ..< n] = Inr (map (\<lambda>c. Arr (map (\<lambda>t. t ! c) tuples)) [0 ..< n])"
    using col by (rule comprehension_Inr)
  then show ?thesis unfolding stack_obs_def tu using l0 by (simp add: tu)
qed

lemma batch_results_replies:
  assumes "results \<noteq> []" "length obs = length results" "length rewards = length results"
    "length dones = length results" "length infos = length results"
    "\<And>i. i < length results \<Longrightarrow>
       results ! i = StepReply (obs ! i) (rewards ! i) (dones ! i) (infos ! i)"
    "stack_obs obs = Inr batch"
  shows "batch_results results = Inr (batch, rewards, dones, infos)"
  using assms(1,7) unzip_results_replies[OF assms(2-6)] by (simp add: batch_results_def)

text \<open>
  Claim C2. \<open>_step\<close> sends action \<open>i\<close> to worker \<open>i\<close>. Whatever the order in which the
  workers run and reply (every worker runs at least once), \<open>_step\<close> returns, and what
  it returns is the batching of the answers of the workers in the order of the pipes:
  the rewards, dones and infos have one entry per worker, entry \<open>i\<close> is that of the
  answer of worker \<open>i\<close> to action \<open>i\<close>, and row \<open>i\<close> of the batched observation (of each
  of its fields, for tuples) is the observation of worker \<open>i\<close>. When the workers answer
  arrays of one shape, the result is the array of these arrays, in the order of the
  workers, with the rewards, dones and infos of the answers. When they answer tuples of
  \<open>n\<close> fields, every field of one shape, the batched observation is the tuple of \<open>n\<close>
  columns, and column \<open>c\<close> is the array of the fields \<open>c\<close> of the answers, in the order of
  the workers. The workers wait for a command, with empty pipes, when \<open>_step\<close> is
  called.
\<close>

theorem parallel_step_order:
  assumes "length actions = length pipes" and "list_all idle pipes"
    and "\<forall>i<length pipes. i \<in> set schedule"
  shows "(\<exists>pipes'. parallel_step schedule pipes actions =
            Some (batch_results
                    (map2 (\<lambda>p action. step_answer (environment p) (env_state p) action)
                       pipes actions), pipes'))
       \<and> (\<forall>batch rewards dones infos.
            batch_results
              (map2 (\<lambda>p action. step_answer (environment p) (env_state p) action)
                 pipes actions) = Inr (batch, rewards, dones, infos) \<longrightarrow>
            length rewards = length pipes \<and> length dones = length pipes
            \<and> length infos = length pipes
            \<and> (\<exists>obs. length obs = length pipes \<and> stacked_in_order obs batch
                 \<and> (\<forall>i<length pipes.
                       step_answer (environment (pipes ! i)) (env_state (pipes ! i)) (actions ! i)
                         = StepReply (obs ! i) (rewards ! i) (dones ! i) (infos ! i))))
       \<and> (\<forall>arrays rewards dones infos.
            pipes \<noteq> [] \<and> length arrays = length pipes \<and> length rewards = length pipes
            \<and> length dones = length pipes \<and> length infos = length pipes
            \<and> (\<forall>i<length pipes.
                  step_answer (environment (pipes ! i)) (env_state (pipes ! i)) (actions ! i)
                    = StepReply (Single (arrays ! i)) (rewards ! i) (dones ! i) (infos ! i)
                  \<and> shape (arrays ! i) = shape (arrays ! 0)) \<longrightarrow>
            (\<exists>pipes'. parallel_step schedule pipes actions =
               Some (Inr (Single (Arr arrays), rewards, dones, infos), pipes')))
       \<and> (\<forall>tuples n rewards dones infos.
            pipes \<noteq> [] \<and> length tuples = length pipes \<and> length rewards = length pipes
            \<and> length dones = length pipes \<and> length infos = length pipes
            \<and> (\<forall>i<length pipes.
                  step_answer (environment (pipes ! i)) (env_state (pipes ! i)) (actions ! i)
                    = StepReply (Composite (tuples ! i)) (rewards ! i) (dones ! i) (infos ! i)
                  \<and> length (tuples ! i) = n
                  \<and> (\<forall>c<n. shape (tuples ! i ! c) = shape (tuples ! 0 ! c))) \<longrightarrow>
            (\<exists>pipes'. parallel_step schedule pipes actions =
               Some (Inr (Composite (map (\<lambda>c. Arr (map (\<lambda>t. t ! c) tuples)) [0 ..< n]),
                          rewards, dones, infos), pipes')))"
proof -
  let ?rs = "map2 (\<lambda>p action. step_answer (environment p) (env_state p) action) pipes actions"
  have lrs: "length ?rs = length pipes" using assms(1) by simp
  have nrs: "?rs ! i = step_answer (environment (pipes ! i)) (env_state (pipes ! i)) (actions ! i)"
    if "i < length pipes" for i
    using that assms(1) by simp
  have run: "\<exists>pipes'. parallel_step schedule pipes actions = Some (batch_results ?rs, pipes')"
    using assms by (rule parallel_step_results)
  have slots: "length rewards = length pipes \<and> length dones = length pipes
            \<and> length infos = length pipes
            \<and> (\<exists>obs. length obs = length pipes \<and> stacked_in_order obs batch
                 \<and> (\<forall>i<length pipes.
                       step_answer (environment (pipes ! i)) (env_state (pipes ! i)) (actions ! i)
                         = StepReply (obs ! i) (rewards ! i) (dones ! i) (infos ! i)))"
    if b: "batch_results ?rs = Inr (batch, rewards, dones, infos)"
    for batch rewards dones infos
  proof -
    note sl = batch_results_slots[OF b, unfolded lrs]
    from sl have l: "length rewards = length pipes" "length dones = length pipes"
      "length infos = length pipes"
      by (rule conjunct1, rule conjunct2[THEN conjunct1],
          rule conjunct2[THEN conjunct2, THEN conjunct1])
    from sl have "\<exists>obs. length obs = length pipes \<and> stacked_in_order obs batch
        \<and> (\<forall>i<length pipes. ?rs ! i = StepReply (obs ! i) (rewards ! i) (dones ! i) (infos ! i))"
      by (rule conjunct2[THEN conjunct2, THEN conjunct2])
    then obtain obs where o: "length obs = length pipes" "stacked_in_order obs batch"
      and o3: "\<forall>i<length pipes.
                 ?rs ! i = StepReply (obs ! i) (rewards ! i) (dones ! i) (infos ! i)"
      by (elim exE conjE)
    have "\<forall>i<length pipes.
        step_answer (environment (pipes ! i)) (env_state (pipes ! i)) (actions ! i)
          = StepReply (obs ! i) (rewards ! i) (dones ! i) (infos ! i)"
    proof (intro allI impI)
      fix i assume i: "i < length pipes"
      from o3 i have "?rs ! i = StepReply (obs ! i) (rewards ! i) (dones ! i) (infos ! i)"
        by (elim allE impE)
      then show "step_answer (environment (pipes ! i)) (env_state (pipes ! i)) (actions ! i)
          = StepReply (obs ! i) (rewards ! i) (dones ! i) (infos ! i)"
        unfolding nrs[OF i] .
    qed
    with o have "\<exists>obs. length obs = length pipes \<and> stacked_in_order obs batch
                 \<and> (\<forall>i<length pipes.
                       step_answer (environment (pipes ! i)) (env_state (pipes ! i)) (actions ! i)
                         = StepReply (obs ! i) (rewards ! i) (dones ! i) (infos ! i))"
      by (intro exI[of _ obs] conjI)
    with l show ?thesis by (intro conjI)
  qed
  have arrays: "\<exists>pipes'. parallel_step schedule pipes actions =
               Some (Inr (Single (Arr arrays), rewards, dones, infos), pipes')"
    if h: "pipes \<noteq> [] \<and> length arrays = length pipes \<and> length rewards = length pipes
            \<and> length dones = length pipes \<and> length infos = length pipes
            \<and> (\<forall>i<length pipes.
                  step_answer (environment (pipes ! i)) (env_state (pipes ! i)) (actions ! i)
                    = StepReply (Single (arrays ! i)) (rewards ! i) (dones ! i) (infos ! i)
                  \<and> shape (arrays ! i) = shape (arrays ! 0))"
    for arrays rewards dones infos
  proof -
    note pne = h[THEN conjunct1]
      and la = h[THEN conjunct2, THEN conjunct1]
      and lr = h[THEN conjunct2, THEN conjunct2, THEN conjunct1]
      and ld = h[THEN conjunct2, THEN conjunct2, THEN conjunct2, THEN conjunct1]
      and li = h[THEN conjunct2, THEN conjunct2, THEN conjunct2, THEN conjunct2, THEN conjunct1]
      and ans = h[THEN conjunct2, THEN conjunct2, THEN conjunct2, THEN conjunct2, THEN conjunct2]
    from pne lrs la have ne: "?rs \<noteq> []" "arrays \<noteq> []"
      by auto
    have sh: "\<forall>i<length arrays. shape (arrays ! i) = shape (arrays ! 0)"
      unfolding la using ans by (intro allI impI) (elim allE impE, assumption, erule conjunct2)
    have st: "stack_obs (map Single arrays) = Inr (Single (Arr arrays))"
      using ne(2) sh by (rule stack_obs_arrays)
    have "batch_results ?rs = Inr (Single (Arr arrays), rewards, dones, infos)"
    proof (rule batch_results_replies[OF ne(1) _ _ _ _ _ st])
      fix i assume "i < length ?rs"
      then have i: "i < length pipes" unfolding lrs .
      have "step_answer (environment (pipes ! i)) (env_state (pipes ! i)) (actions ! i)
                    = StepReply (Single (arrays ! i)) (rewards ! i) (dones ! i) (infos ! i)"
        by (rule ans[rule_format, OF i, THEN conjunct1])
      moreover have "map Single arrays ! i = Single (arrays ! i)" using i la by simp
      ultimately
      show "?rs ! i = StepReply (map Single arrays ! i) (rewards ! i) (dones ! i) (infos ! i)"
        unfolding nrs[OF i] by (simp only:)
    next
      show "length (map Single arrays) = length ?rs" unfolding lrs using la by simp
    qed (simp_all only: lrs lr ld li)
    with run show ?thesis by (simp only:)
  qed
  have tuples: "\<exists>pipes'. parallel_step schedule pipes actions =
               Some (Inr (Composite (map (\<lambda>c. Arr (map (\<lambda>t. t ! c) tuples)) [0 ..< n]),
                          rewards, dones, infos), pipes')"
    if h: "pipes \<noteq> [] \<and> length tuples = length pipes \<and> length rewards = length pipes
            \<and> length dones = length pipes \<and> length infos = length pipes
            \<and> (\<forall>i<length pipes.
                  step_answer (environment (pipes ! i)) (env_state (pipes ! i)) (actions ! i)
                    = StepReply (Composite (tuples ! i)) (rewards ! i) (dones ! i) (infos ! i)
                  \<and> length (tuples ! i) = n
                  \<and> (\<forall>c<n. shape (tuples ! i ! c) = shape (tuples ! 0 ! c)))"
    for tuples n rewards dones infos
  proof -
    note pne = h[THEN conjunct1]
      and la = h[THEN conjunct2, THEN conjunct1]
      and lr = h[THEN conjunct2, THEN conjunct2, THEN conjunct1]
      and ld = h[THEN conjunct2, THEN conjunct2, THEN conjunct2, THEN conjunct1]
      and li = h[THEN conjunct2, THEN conjunct2, THEN conjunct2, THEN conjunct2, THEN conjunct1]
      and ans = h[THEN conjunct2, THEN conjunct2, THEN conjunct2, THEN conjunct2, THEN conjunct2]
    from pne lrs la have ne: "?rs \<noteq> []" "tuples \<noteq> []"
      by auto
    have sh: "\<forall>i<length tuples. length (tuples ! i) = n
            \<and> (\<forall>c<n. shape (tuples ! i ! c) = shape (tuples ! 0 ! c))"
      unfolding la using ans by (intro allI impI) (elim allE impE, assumption, erule conjunct2)
    have st: "stack_obs (map Composite tuples)
        = Inr (Composite (map (\<lambda>c. Arr (map (\<lambda>t. t ! c) tuples)) [0 ..< n]))"
      using ne(2) sh by (rule stack_obs_tuples)
    have "batch_results ?rs
        = Inr (Composite (map (\<lambda>c. Arr (map (\<lambda>t. t ! c) tuples)) [0 ..< n]),
               rewards, dones, infos)"
    proof (rule batch_results_replies[OF ne(1) _ _ _ _ _ st])
      fix i assume "i < length ?rs"
      then have i: "i < length pipes" unfolding lrs .
      have "step_answer (environment (pipes ! i)) (env_state (pipes ! i)) (actions ! i)
                    = StepReply (Composite (tuples ! i)) (rewards ! i) (dones ! i) (infos ! i)"
        by (rule ans[rule_format, OF i, THEN conjunct1])
      moreover have "map Composite tuples ! i = Composite (tuples ! i)" using i la by simp
      ultimately
      show "?rs ! i = StepReply (map Composite tuples ! i) (rewards ! i) (dones ! i) (infos ! i)"
        unfolding nrs[OF i] by (simp only:)
    next
      show "length (map Composite tuples) = length ?rs" unfolding lrs using la by simp
    qed (simp_all only: lrs lr ld li)
    with run show ?thesis by (simp only:)
  qed
  have c2: "\<forall>batch rewards dones infos.
            batch_results ?rs = Inr (batch, rewards, dones, infos) \<longrightarrow>
            length rewards = length pipes \<and> length dones = length pipes
            \<and> length infos = length pipes
            \<and> (\<exists>obs. length obs = length pipes \<and> stacked_in_order obs batch
                 \<and> (\<forall>i<length pipes.
                       step_answer (environment (pipes ! i)) (env_state (pipes ! i)) (actions ! i)
                         = StepReply (obs ! i) (rewards ! i) (dones ! i) (infos ! i)))"
    by (intro allI impI) (erule slots)
  have c3: "\<forall>arrays rewards dones infos.
            pipes \<noteq> [] \<and> length arrays = length pipes \<and> length rewards = length pipes
            \<and> length dones = length pipes \<and> length infos = length pipes
            \<and> (\<forall>i<length pipes.
                  step_answer (environment (pipes ! i)) (env_state (pipes ! i)) (actions ! i)
                    = StepReply (Single (arrays ! i)) (rewards ! i) (dones ! i) (infos ! i)
                  \<and> shape (arrays ! i) = shape (arrays ! 0)) \<longrightarrow>
            (\<exists>pipes'. parallel_step schedule pipes actions =
               Some (Inr (Single (Arr arrays), rewards, dones, infos), pipes'))"
    by (intro allI impI) (erule arrays)
  have c4: "\<forall>tuples n rewards dones infos.
            pipes \<noteq> [] \<and> length tuples = length pipes \<and> length rewards = length pipes
            \<and> length dones = length pipes \<and> length infos = length pipes
            \<and> (\<forall>i<length pipes.
                  step_answer (environment (pipes ! i)) (env_state (pipes ! i)) (actions ! i)
                    = StepReply (Composite (tuples ! i)) (rewards ! i) (dones ! i) (infos ! i)
                  \<and> length (tuples ! i) = n
                  \<and> (\<forall>c<n. shape (tuples ! i ! c) = shape (tuples ! 0 ! c))) \<longrightarrow>
            (\<exists>pipes'. parallel_step schedule pipes actions =
               Some (Inr (Composite (map (\<lambda>c. Arr (map (\<lambda>t. t ! c) tuples)) [0 ..< n]),
                          rewards, dones, infos), pipes'))"
    by (intro allI impI) (erule tuples)
  show ?thesis by (intro conjI run c2 c3 c4)
qed

text \<open>
  Two workers; worker 1 replies first. Worker 0 is done and answers the observation of
  its reset. Once with array observations, once with tuples of two fields.
\<close>

theorem parallel_step_order_witness:
  "parallel_step [1, 0, 1]
     [\<lparr>environment = counting_env, state = Waiting 3, inbox = [], outbox = []\<rparr>,
      \<lparr>environment = counting_env, state = Waiting 5, inbox = [], outbox = []\<rparr>] [0, 2]
   = Some (Inr (Single (Arr [Num 0, Num 7]), [0, 2], [True, False], [(), ()]),
        [\<lparr>environment = counting_env, state = Waiting 0, inbox = [], outbox = []\<rparr>,
         \<lparr>environment = counting_env, state = Waiting 6, inbox = [], outbox = []\<rparr>])
   \<and> (\<exists>obs. length obs = 2 \<and> stacked_in_order obs (Single (Arr [Num 0, Num 7]))
        \<and> (\<forall>i<2. step_answer counting_env ([3, 5] ! i) ([0, 2] ! i)
             = StepReply (obs ! i) ([0, 2] ! i) ([True, False] ! i) ([(), ()] ! i)))
   \<and> parallel_step [1, 0, 1]
     [\<lparr>environment = pair_env, state = Waiting 3, inbox = [], outbox = []\<rparr>,
      \<lparr>environment = pair_env, state = Waiting 5, inbox = [], outbox = []\<rparr>] [0, 2]
   = Some (Inr (Composite [Arr [Num 0, Num 5], Arr [Arr [Num 0, Num 0], Arr [Num 2, Num 7]]],
                [0, 2], [True, False], [(), ()]),
        [\<lparr>environment = pair_env, state = Waiting 0, inbox = [], outbox = []\<rparr>,
         \<lparr>environment = pair_env, state = Waiting 6, inbox = [], outbox = []\<rparr>])
   \<and> stacked_in_order
        [Composite [Num 0, Arr [Num 0, Num 0]], Composite [Num 5, Arr [Num 2, Num 7]]]
        (Composite [Arr [Num 0, Num 5], Arr [Arr [Num 0, Num 0], Arr [Num 2, Num 7]]])"
proof -
  let ?pipes = "[\<lparr>environment = counting_env, state = Waiting 3, inbox = [], outbox = []\<rparr>,
      \<lparr>environment = counting_env, state = Waiting 5, inbox = [], outbox = []\<rparr>]"
  have h1: "length [0, 2 :: nat] = length ?pipes" by simp
  have h2: "list_all idle ?pipes" by (simp add: idle_def)
  have h3: "\<forall>i<length ?pipes. i \<in> set [1, 0, 1]" by auto
  have e: "parallel_step [1, 0, 1] ?pipes [0, 2]
      = Some (Inr (Single (Arr [Num 0, Num 7]), [0, 2], [True, False], [(), ()]),
        [\<lparr>environment = counting_env, state = Waiting 0, inbox = [], outbox = []\<rparr>,
         \<lparr>environment = counting_env, state = Waiting 6, inbox = [], outbox = []\<rparr>])"
    by (simp add: parallel_step_def run_process_def worker_dispatch_def batch_results_def
        stack_obs_def asanyarray_def np_stack_def counting_env_def)
  let ?answers = "map2 (\<lambda>p action. step_answer (environment p) (env_state p) action)
      ?pipes [0, 2]"
  note th = parallel_step_order[OF h1 h2 h3]
  from th[THEN conjunct1]
  have A: "\<exists>pipes'. parallel_step [1, 0, 1] ?pipes [0, 2]
             = Some (batch_results ?answers, pipes')" .
  from A have br: "batch_results ?answers
      = Inr (Single (Arr [Num 0, Num 7]), [0, 2], [True, False], [(), ()])"
    unfolding e by simp
  from th[THEN conjunct2, THEN conjunct1, rule_format, OF br]
  have "\<exists>obs. length obs = length ?pipes \<and> stacked_in_order obs (Single (Arr [Num 0, Num 7]))
        \<and> (\<forall>i<length ?pipes.
              step_answer (environment (?pipes ! i)) (env_state (?pipes ! i)) ([0, 2] ! i)
               = StepReply (obs ! i) ([0, 2] ! i) ([True, False] ! i) ([(), ()] ! i))"
    by (elim conjE)
  then have B: "\<exists>obs. length obs = 2 \<and> stacked_in_order obs (Single (Arr [Num 0, Num 7]))
        \<and> (\<forall>i<2. step_answer counting_env ([3, 5] ! i) ([0, 2] ! i)
               = StepReply (obs ! i) ([0, 2] ! i) ([True, False] ! i) ([(), ()] ! i))"
    by (auto simp: less_Suc_eq numeral_2_eq_2 env_state_def)
  have hypA: "?pipes \<noteq> [] \<and> length [Num 0, Num 7] = length ?pipes
            \<and> length [0, 2 :: real] = length ?pipes
            \<and> length [True, False] = length ?pipes \<and> length [(), ()] = length ?pipes
            \<and> (\<forall>i<length ?pipes.
                  step_answer (environment (?pipes ! i)) (env_state (?pipes ! i)) ([0, 2] ! i)
                    = StepReply (Single ([Num 0, Num 7] ! i)) ([0, 2] ! i) ([True, False] ! i)
                        ([(), ()] ! i)
                  \<and> shape ([Num 0, Num 7] ! i) = shape ([Num 0, Num 7] ! 0))"
    by (simp add: less_Suc_eq numeral_2_eq_2 env_state_def step_answer_def counting_env_def
        all_conj_distrib)
  from th[THEN conjunct2, THEN conjunct2, THEN conjunct1, rule_format, OF hypA]
  have A3: "\<exists>pipes'. parallel_step [1, 0, 1] ?pipes [0, 2]
      = Some (Inr (Single (Arr [Num 0, Num 7]), [0, 2], [True, False], [(), ()]), pipes')" .
  let ?pairs = "[\<lparr>environment = pair_env, state = Waiting 3, inbox = [], outbox = []\<rparr>,
      \<lparr>environment = pair_env, state = Waiting 5, inbox = [], outbox = []\<rparr>]"
  let ?tuples = "[[Num 0, Arr [Num 0, Num 0]], [Num 5, Arr [Num 2, Num 7]]]"
  let ?batch = "Composite [Arr [Num 0, Num 5], Arr [Arr [Num 0, Num 0], Arr [Num 2, Num 7]]]"
  have k1: "length [0, 2 :: nat] = length ?pairs" by simp
  have k2: "list_all idle ?pairs" by (simp add: idle_def)
  have k3: "\<forall>i<length ?pairs. i \<in> set [1, 0, 1]" by auto
  have p: "parallel_step [1, 0, 1] ?pairs [0, 2]
      = Some (Inr (?batch, [0, 2], [True, False], [(), ()]),
        [\<lparr>environment = pair_env, state = Waiting 0, inbox = [], outbox = []\<rparr>,
         \<lparr>environment = pair_env, state = Waiting 6, inbox = [], outbox = []\<rparr>])"
    by (simp add: parallel_step_def run_process_def worker_dispatch_def batch_results_def
        stack_obs_def item_def np_stack_def pair_env_def upt_conv_Cons)
  note tp = parallel_step_order[OF k1 k2 k3]
  have hyp: "?pairs \<noteq> [] \<and> length ?tuples = length ?pairs
            \<and> length [0, 2 :: real] = length ?pairs
            \<and> length [True, False] = length ?pairs \<and> length [(), ()] = length ?pairs
            \<and> (\<forall>i<length ?pairs.
                  step_answer (environment (?pairs ! i)) (env_state (?pairs ! i)) ([0, 2] ! i)
                    = StepReply (Composite (?tuples ! i)) ([0, 2] ! i) ([True, False] ! i)
                        ([(), ()] ! i)
                  \<and> length (?tuples ! i) = 2
                  \<and> (\<forall>c<2. shape (?tuples ! i ! c) = shape (?tuples ! 0 ! c)))"
    by (simp add: less_Suc_eq numeral_2_eq_2 env_state_def step_answer_def pair_env_def
        all_conj_distrib)
  from tp[THEN conjunct2, THEN conjunct2, THEN conjunct2, rule_format, OF hyp]
  have C: "\<exists>pipes'. parallel_step [1, 0, 1] ?pairs [0, 2]
      = Some (Inr (Composite (map (\<lambda>c. Arr (map (\<lambda>t. t ! c) ?tuples)) [0 ..< 2]),
                [0, 2], [True, False], [(), ()]), pipes')" .
  then obtain pipes' where "batch_results (map2 (\<lambda>p action. step_answer (environment p) (env_state p) action)
      ?pairs [0, 2]) = Inr (?batch, [0, 2], [True, False], [(), ()])"
    using tp[THEN conjunct1] by (auto simp: upt_conv_Cons)
  from tp[THEN conjunct2, THEN conjunct1, rule_format, OF this]
  obtain obs where o: "length obs = length ?pairs" "stacked_in_order obs ?batch"
    "\<forall>i<length ?pairs.
        step_answer (environment (?pairs ! i)) (env_state (?pairs ! i)) ([0, 2] ! i)
          = StepReply (obs ! i) ([0, 2] ! i) ([True, False] ! i) ([(), ()] ! i)"
    by (elim conjE exE)
  from o(1) obtain a b where ab: "obs = [a, b]"
    by (cases obs; cases "tl obs") auto
  from o(3)[rule_format, of 0] o(3)[rule_format, of 1] ab
  have "obs = map Composite ?tuples"
    by (simp add: env_state_def step_answer_def pair_env_def)
  with o(2) have D: "stacked_in_order (map Composite ?tuples) ?batch" by simp
  from e A3 B p D show ?thesis by simp
qed

section \<open>Properties of the loss\<close>

lemma sum_exp_pos: "x \<noteq> [] \<Longrightarrow> 0 < sum_list (map exp (x :: real list))"
proof (induction x)
  case Nil
  then show ?case by simp
next
  case (Cons v x)
  have "0 \<le> sum_list (map exp x)" by (rule sum_list_nonneg) auto
  moreover have "0 < exp v" by simp
  ultimately show ?case by (simp add: add_pos_nonneg)
qed

lemma log_softmax_ln:
  "a < length x \<Longrightarrow> log_softmax x ! a = ln (softmax x ! a)"
proof -
  assume a: "a < length x"
  then have "x \<noteq> []" by auto
  from sum_exp_pos[OF this] have S: "0 < sum_list (map exp x)" .
  have "ln (exp (x ! a) / sum_list (map exp x)) = x ! a - ln (sum_list (map exp x))"
    using S by (simp add: ln_div)
  with a show ?thesis by (simp add: log_softmax_def softmax_def)
qed

lemma sum_list_nth: "sum_list xs = (\<Sum>i<length xs. xs ! i)" for xs :: "real list"
  by (simp add: sum_list_sum_nth atLeast0LessThan)

lemma row_entropy:
  "- sum_list (map2 (*) (log_softmax x) (softmax x)) = shannon_entropy (softmax x)"
proof -
  have l: "length (softmax x) = length x" "length (log_softmax x) = length x"
    by (simp_all add: softmax_def log_softmax_def)
  have "sum_list (map2 (*) (log_softmax x) (softmax x))
      = (\<Sum>a<length x. log_softmax x ! a * softmax x ! a)"
    using l by (simp add: sum_list_nth)
  also have "\<dots> = (\<Sum>a<length x. softmax x ! a * ln (softmax x ! a))"
    by (rule sum.cong) (simp_all add: log_softmax_ln mult.commute)
  finally show ?thesis using l by (simp add: shannon_entropy_def)
qed

lemma comprehension_nth:
  assumes "comprehension f xs = Inr ys"
  shows "length ys = length xs" and "i < length xs \<Longrightarrow> f (xs ! i) = Inr (ys ! i)"
proof -
  from comprehension_map[OF assms] have m: "map f xs = map Inr ys" .
  from map_eq_imp_length_eq[OF m] show l: "length ys = length xs" by simp
  assume i: "i < length xs"
  from m have "map f xs ! i = map Inr ys ! i" by simp
  with i l show "f (xs ! i) = Inr (ys ! i)" by simp
qed

lemma gather_nth:
  assumes "gather x index = Inr chosen"
  shows "length chosen = length x \<and> length index = length x
       \<and> (\<forall>b<length x. index ! b < length (x ! b) \<and> chosen ! b = x ! b ! (index ! b))"
proof -
  let ?f = "\<lambda>(row, a). if a < length row then Inr (row ! a) else Inl RuntimeError"
  have len: "length x = length index"
    using assms unfolding gather_def by (cases "length x = length index") simp_all
  with assms have c: "comprehension ?f (zip x index) = Inr chosen"
    unfolding gather_def by simp
  from comprehension_nth(1)[OF c] len have lc: "length chosen = length x" by simp
  have "index ! b < length (x ! b) \<and> chosen ! b = x ! b ! (index ! b)" if b: "b < length x" for b
  proof -
    from b len have "b < length (zip x index)" by simp
    from comprehension_nth(2)[OF c this] b len
    have "(if index ! b < length (x ! b) then Inr (x ! b ! (index ! b)) else Inl RuntimeError)
            = Inr (chosen ! b)" by simp
    then show ?thesis by (cases "index ! b < length (x ! b)") simp_all
  qed
  with lc len show ?thesis by simp
qed

lemma mean_Inr: "mean xs = Inr m \<Longrightarrow> xs \<noteq> [] \<and> m = (\<Sum>i<length xs. xs ! i) / real (length xs)"
  by (auto simp: mean_def sum_list_nth split: if_splits)

lemma shannon_log_softmax:
  "shannon_entropy (softmax x) = - (\<Sum>a<length x. softmax x ! a * log_softmax x ! a)"
proof -
  have "(\<Sum>a<length x. softmax x ! a * ln (softmax x ! a))
      = (\<Sum>a<length x. softmax x ! a * log_softmax x ! a)"
    by (rule sum.cong) (simp_all add: log_softmax_ln)
  then show ?thesis by (simp add: shannon_entropy_def softmax_def)
qed

lemma softmax_range:
  assumes "a < length x"
  shows "0 < softmax x ! a \<and> softmax x ! a \<le> 1"
proof -
  from assms have "x \<noteq> []" by auto
  from sum_exp_pos[OF this] have S: "0 < sum_list (map exp x)" .
  have "exp (x ! a) \<le> (\<Sum>i<length x. exp (x ! i))"
    using assms by (intro member_le_sum) simp_all
  also have "\<dots> = sum_list (map exp x)"
    using sum_list_nth[of "map exp x"] by simp
  finally have "exp (x ! a) \<le> sum_list (map exp x)" .
  with S assms show ?thesis by (simp add: softmax_def)
qed

lemma shannon_entropy_nonneg: "0 \<le> shannon_entropy (softmax x)"
proof -
  have "softmax x ! a * ln (softmax x ! a) \<le> 0" if "a < length x" for a
  proof -
    from softmax_range[OF that] have "0 < softmax x ! a" "ln (softmax x ! a) \<le> 0"
      by simp_all
    then show ?thesis by (simp add: mult_le_0_iff)
  qed
  then have "(\<Sum>a<length x. softmax x ! a * ln (softmax x ! a)) \<le> 0"
    by (intro sum_nonpos) simp
  then show ?thesis by (simp add: shannon_entropy_def softmax_def)
qed

lemma spec_entropy_term_nonneg: "0 \<le> spec_entropy_term logits"
  unfolding spec_entropy_term_def
  by (intro divide_nonneg_nonneg sum_nonneg shannon_entropy_nonneg) simp

text \<open>
  Claim C6. Whenever \<open>_update\<close> gets a loss, the loss is the policy loss plus \<open>val_coef\<close>
  times the value loss plus \<open>ent_coef\<close> times the entropy term, with the three terms
  of the specification: the entropy term is the batch mean of the Shannon entropy of
  \<open>softmax(logits)\<close>, which is \<open>- \<Sum>a. softmax a * log_softmax a\<close>; it is not negative,
  and it enters the loss with the coefficient \<open>ent_coef\<close> itself, not negated.
\<close>

theorem update_loss_composition:
  assumes "update_loss ag logits value target action = Inr loss"
  shows "loss = spec_policy_loss logits target value action
                + val_coef ag * spec_value_loss target value
                + ent_coef ag * spec_entropy_term logits
       \<and> (\<forall>b<length logits.
             shannon_entropy (softmax (logits ! b))
               = - (\<Sum>a<length (logits ! b).
                     softmax (logits ! b) ! a * log_softmax (logits ! b) ! a))
       \<and> 0 \<le> spec_entropy_term logits"
proof -
  let ?lp = "map log_softmax logits" and ?p = "map softmax logits"
  let ?ent = "map2 (\<lambda>lp p. - sum_list (map2 (*) lp p)) ?lp ?p"
  from assms obtain advantage where adv: "tsub target value = Inr advantage"
    by (cases "tsub target value") (simp_all add: update_loss_def Let_def)
  from assms adv obtain m where m: "mean (map (\<lambda>a. a ^ 2) advantage) = Inr m"
    by (cases "mean (map (\<lambda>a. a ^ 2) advantage)") (simp_all add: update_loss_def Let_def)
  from assms adv m obtain chosen where ch: "gather ?lp action = Inr chosen"
    by (cases "gather ?lp action") (simp_all add: update_loss_def Let_def)
  from assms adv m ch obtain weighted where w: "tmul exact_arithmetic chosen advantage = Inr weighted"
    by (cases "tmul exact_arithmetic chosen advantage") (simp_all add: update_loss_def Let_def)
  from assms adv m ch w obtain pm where pm: "mean weighted = Inr pm"
    by (cases "mean weighted") (simp_all add: update_loss_def Let_def)
  from assms adv m ch w pm obtain el where el: "mean ?ent = Inr el"
    by (cases "mean ?ent") (simp_all add: update_loss_def Let_def)
  from assms adv m ch w pm el
  have loss: "loss = - pm + val_coef ag * (m * (1 / 2)) + ent_coef ag * el"
    by (simp add: update_loss_def Let_def)
  from adv have la: "length target = length value" "advantage = map2 (-) target value"
    by (auto simp: tsub_def split: if_splits)
  then have ladv: "length advantage = length value" by simp
  have advn: "advantage ! b = target ! b - value ! b" if "b < length value" for b
    using that la by simp
  from gather_nth[OF ch] have lch: "length chosen = length logits"
    and lact: "length action = length logits"
    and chn: "\<And>b. b < length logits \<Longrightarrow> action ! b < length (logits ! b)
                 \<and> chosen ! b = log_softmax (logits ! b) ! (action ! b)"
    by (auto simp: log_softmax_def)
  from w have lw: "length chosen = length advantage" and wd: "weighted = map2 (*) chosen advantage"
    by (auto simp: tmul_def exact_arithmetic_def split: if_splits)
  with lch ladv have lB: "length value = length logits" by simp
  have lwt: "length weighted = length logits" using wd lw lch by simp
  have wn: "weighted ! b = ln (softmax (logits ! b) ! (action ! b)) * (target ! b - value ! b)"
    if b: "b < length logits" for b
  proof -
    from chn[OF b] have "chosen ! b = ln (softmax (logits ! b) ! (action ! b))"
      by (simp add: log_softmax_ln)
    with b wd lw lch advn[of b] lB show ?thesis by simp
  qed
  from mean_Inr[OF pm] have "pm = (\<Sum>b<length logits. weighted ! b) / real (length logits)"
    using lwt by simp
  also have "(\<Sum>b<length logits. weighted ! b)
      = (\<Sum>b<length logits. ln (softmax (logits ! b) ! (action ! b)) * (target ! b - value ! b))"
    by (rule sum.cong) (simp_all add: wn)
  finally have P: "- pm = spec_policy_loss logits target value action"
    by (simp add: spec_policy_loss_def)
  from mean_Inr[OF m] have "m = (\<Sum>b<length value. map (\<lambda>a. a ^ 2) advantage ! b) / real (length value)"
    using ladv by simp
  also have "(\<Sum>b<length value. map (\<lambda>a. a ^ 2) advantage ! b)
      = (\<Sum>b<length value. (target ! b - value ! b) ^ 2)"
    by (rule sum.cong) (simp_all add: advn ladv)
  finally have V: "m * (1 / 2) = spec_value_loss target value"
    by (simp add: spec_value_loss_def)
  have lent: "length ?ent = length logits" by simp
  from mean_Inr[OF el] have "el = (\<Sum>b<length logits. ?ent ! b) / real (length logits)"
    using lent by simp
  also have "(\<Sum>b<length logits. ?ent ! b)
      = (\<Sum>b<length logits. shannon_entropy (softmax (logits ! b)))"
    by (rule sum.cong) (simp_all add: row_entropy)
  finally have E: "el = spec_entropy_term logits" by (simp add: spec_entropy_term_def)
  from loss P V E
  have "loss = spec_policy_loss logits target value action
                + val_coef ag * spec_value_loss target value
                + ent_coef ag * spec_entropy_term logits" by simp
  then show ?thesis using shannon_log_softmax spec_entropy_term_nonneg by blast
qed


text \<open>
  One entry with two actions of equal logits: the entropy is \<open>ln 2\<close>, the advantage 2.
\<close>

theorem update_loss_composition_witness:
  "update_loss \<lparr>rollout_num_steps = 5, discount = 99/100, ent_coef = 1/1000, val_coef = 1,
       use_gpu = False, actor_critic = (\<lambda>ob::unit observation. ([], []))\<rparr>
     [[0, 0]] [1] [3] [1] = Inr (2 * ln 2 + 2 + ln 2 / 1000)
   \<and> 2 * ln 2 + 2 + ln 2 / 1000
       = spec_policy_loss [[0, 0]] [3] [1] [1] + 1 * spec_value_loss [3] [1]
         + 1 / 1000 * spec_entropy_term [[0, 0]]
   \<and> 0 \<le> spec_entropy_term [[0, 0]]"
proof -
  have h: "update_loss \<lparr>rollout_num_steps = 5, discount = 99/100, ent_coef = 1/1000,
       val_coef = 1, use_gpu = False, actor_critic = (\<lambda>ob::unit observation. ([], []))\<rparr>
     [[0, 0]] [1] [3] [1] = Inr (2 * ln 2 + 2 + ln 2 / 1000)"
    by (simp add: update_loss_def log_softmax_def softmax_def tsub_def tmul_def mean_def
        gather_def exact_arithmetic_def)
  from update_loss_composition[OF h] h show ?thesis by simp
qed

section \<open>Properties of the Zerg observation wrapper\<close>

lemma np_index_less: "np_index n i = Inr k \<Longrightarrow> k < n"
  by (auto simp: np_index_def split: if_splits)

lemma zeros3_shape: "zeros3 c r r = Inr f \<Longrightarrow> 0 \<le> c \<and> 0 \<le> r \<and> has_shape (nat c) (nat r) f"
  by (auto simp: zeros3_def has_shape_def list_all_iff split: if_splits)

lemma list_all_update:
  "list_all P xs \<Longrightarrow> P x \<Longrightarrow> list_all P (xs[i := x])"
  using set_update_subset_insert[of xs i x] by (auto simp: list_all_iff)

lemma has_shape_channel:
  "has_shape c r f \<Longrightarrow> ci < c \<Longrightarrow>
   length (f ! ci) = r \<and> list_all (\<lambda>row. length row = r) (f ! ci)"
  by (auto simp: has_shape_def list_all_iff)

lemma has_shape_update:
  assumes "has_shape c r f" "length ch = r" "list_all (\<lambda>row. length row = r) ch"
  shows "has_shape c r (f[ci := ch])"
proof -
  from assms have "list_all (\<lambda>channel. length channel = r
      \<and> list_all (\<lambda>row. length row = r) channel) (f[ci := ch])"
    by (intro list_all_update) (simp_all add: has_shape_def)
  with assms(1) show ?thesis by (simp add: has_shape_def)
qed

lemma add_at_shape:
  assumes "has_shape c r f" "add_at f ci y x = Inr f'"
  shows "has_shape c r f'"
proof -
  from assms(2) obtain a where a: "np_index (length f) ci = Inr a"
    by (cases "np_index (length f) ci") (simp_all add: add_at_def)
  from assms(2) a obtain b where b: "np_index (length (f ! a)) y = Inr b"
    by (cases "np_index (length (f ! a)) y") (simp_all add: add_at_def)
  from assms(2) a b obtain d where d: "np_index (length (f ! a ! b)) x = Inr d"
    by (cases "np_index (length (f ! a ! b)) x") (simp_all add: add_at_def)
  from assms(2) a b d
  have f': "f' = f[a := (f ! a)[b := (f ! a ! b)[d := f ! a ! b ! d + 1]]]"
    by (simp add: add_at_def)
  from assms(1) have lf: "length f = c" by (simp add: has_shape_def)
  from np_index_less[OF a] lf have ac: "a < c" by simp
  from has_shape_channel[OF assms(1) ac] have la: "length (f ! a) = r"
    and rows: "list_all (\<lambda>row. length row = r) (f ! a)" by simp_all
  from np_index_less[OF b] la have "b < length (f ! a)" by simp
  with rows have lb: "length (f ! a ! b) = r" by (simp add: list_all_length)
  have "list_all (\<lambda>row. length row = r) ((f ! a)[b := (f ! a ! b)[d := f ! a ! b ! d + 1]])"
    using rows lb by (intro list_all_update) simp_all
  with has_shape_update[OF assms(1), of "(f ! a)[b := (f ! a ! b)[d := f ! a ! b ! d + 1]]" a] la
  show ?thesis unfolding f' by simp
qed

lemma unit_type_loop_shape:
  "has_shape c r f \<Longrightarrow> unit_type_loop tm res gw gh us f = Inr f' \<Longrightarrow> has_shape c r f'"
proof (induction us arbitrary: f)
  case Nil
  then show ?case by simp
next
  case (Cons u us)
  show ?case
  proof (cases "map_of tm (unit_type u)")
    case None
    with Cons show ?thesis by simp
  next
    case (Some ci)
    with Cons.prems(2) obtain f1 where
      a: "add_at f ci (res - 1 - \<lfloor>pos_y u / gh\<rfloor>) \<lfloor>pos_x u / gw\<rfloor> = Inr f1"
      and l: "unit_type_loop tm res gw gh us f1 = Inr f'"
      by (cases "add_at f ci (res - 1 - \<lfloor>pos_y u / gh\<rfloor>) \<lfloor>pos_x u / gw\<rfloor>") simp_all
    from Cons.IH[OF add_at_shape[OF Cons.prems(1) a] l] show ?thesis .
  qed
qed

lemma player_relative_loop_shape:
  "has_shape c r f \<Longrightarrow> player_relative_loop res gw gh us f = Inr f' \<Longrightarrow> has_shape c r f'"
proof (induction us arbitrary: f)
  case Nil
  then show ?case by simp
next
  case (Cons u us)
  from Cons.prems(2) obtain f1 where
    a: "add_at f 0 (res - 1 - \<lfloor>pos_y u / gh\<rfloor>) \<lfloor>pos_x u / gw\<rfloor> = Inr f1"
    and l: "player_relative_loop res gw gh us f1 = Inr f'"
    by (cases "add_at f 0 (res - 1 - \<lfloor>pos_y u / gh\<rfloor>) \<lfloor>pos_x u / gw\<rfloor>") simp_all
  from Cons.IH[OF add_at_shape[OF Cons.prems(1) a] l] show ?case .
qed

lemma has_shape_append:
  "has_shape c r f \<Longrightarrow> has_shape d r g \<Longrightarrow> has_shape (c + d) r (f @ g)"
  by (simp add: has_shape_def)

lemma unit_type_generate_shape:
  assumes "unit_type_generate_features tm res ws us = Inr f"
  shows "0 < res \<and> tm \<noteq> [] \<and> has_shape (nat (Max (set (map snd tm)) + 1)) (nat res) f"
proof -
  from assms have ne: "tm \<noteq> []"
    by (cases "tm = []") (simp_all add: unit_type_generate_features_def)
  from assms ne obtain z where z: "zeros3 (Max (set (map snd tm)) + 1) res res = Inr z"
    by (cases "zeros3 (Max (set (map snd tm)) + 1) res res")
       (simp_all add: unit_type_generate_features_def)
  from assms ne z have r0: "res \<noteq> 0"
    by (cases "res = 0") (simp_all add: unit_type_generate_features_def)
  from assms ne z r0 have l: "unit_type_loop tm res (fst ws / real_of_int res)
      (snd ws / real_of_int res) us z = Inr f"
    by (simp add: unit_type_generate_features_def)
  from zeros3_shape[OF z] have "0 \<le> res"
    and sh: "has_shape (nat (Max (set (map snd tm)) + 1)) (nat res) z" by simp_all
  with r0 unit_type_loop_shape[OF sh l] ne show ?thesis by simp
qed

lemma player_relative_generate_shape:
  assumes "player_relative_generate_features res ws us = Inr f"
  shows "0 < res \<and> has_shape 1 (nat res) f"
proof -
  from assms obtain z where z: "zeros3 1 res res = Inr z"
    by (cases "zeros3 1 res res") (simp_all add: player_relative_generate_features_def)
  from assms z have r0: "res \<noteq> 0"
    by (cases "res = 0") (simp_all add: player_relative_generate_features_def)
  from assms z r0 have l: "player_relative_loop res (fst ws / real_of_int res)
      (snd ws / real_of_int res) us z = Inr f"
    by (simp add: player_relative_generate_features_def)
  from zeros3_shape[OF z] have "0 \<le> res" and sh: "has_shape (nat 1) (nat res) z" by simp_all
  with r0 player_relative_loop_shape[OF sh l] show ?thesis by simp
qed

lemma unit_type_features_shape:
  assumes "unit_type_features tm res ws ob = Inr f"
  shows "0 < res \<and> tm \<noteq> [] \<and> has_shape (2 * nat (Max (set (map snd tm)) + 1)) (nat res) f"
proof -
  from assms obtain a where a: "unit_type_generate_features tm res ws (units_of SELF ob) = Inr a"
    by (cases "unit_type_generate_features tm res ws (units_of SELF ob)")
       (simp_all add: unit_type_features_def)
  from assms a obtain b where
    b: "unit_type_generate_features tm res ws (units_of ENEMY ob) = Inr b"
    by (cases "unit_type_generate_features tm res ws (units_of ENEMY ob)")
       (simp_all add: unit_type_features_def)
  from assms a b have f: "f = a @ b" by (simp add: unit_type_features_def)
  from unit_type_generate_shape[OF a] unit_type_generate_shape[OF b] f
    has_shape_append[of "nat (Max (set (map snd tm)) + 1)" "nat res" a
      "nat (Max (set (map snd tm)) + 1)" b]
  show ?thesis by (simp add: mult_2)
qed

lemma player_relative_features_shape:
  assumes "player_relative_features res ws ob = Inr f"
  shows "0 < res \<and> has_shape 3 (nat res) f"
proof -
  from assms obtain a where a: "player_relative_generate_features res ws (units_of SELF ob) = Inr a"
    by (cases "player_relative_generate_features res ws (units_of SELF ob)")
       (simp_all add: player_relative_features_def)
  from assms a obtain b where
    b: "player_relative_generate_features res ws (units_of ENEMY ob) = Inr b"
    by (cases "player_relative_generate_features res ws (units_of ENEMY ob)")
       (simp_all add: player_relative_features_def)
  from assms a b obtain c where
    c: "player_relative_generate_features res ws (units_of NEUTRAL ob) = Inr c"
    by (cases "player_relative_generate_features res ws (units_of NEUTRAL ob)")
       (simp_all add: player_relative_features_def)
  from assms a b c have f: "f = a @ b @ c" by (simp add: player_relative_features_def)
  from player_relative_generate_shape[OF a] player_relative_generate_shape[OF b]
    player_relative_generate_shape[OF c]
  have "0 < res" "has_shape 1 (nat res) a" "has_shape 1 (nat res) b" "has_shape 1 (nat res) c"
    by simp_all
  then show ?thesis unfolding f by (simp add: has_shape_def)
qed

lemma diagonal_flip_shape: "has_shape c r f \<Longrightarrow> has_shape c r (diagonal_flip w f)"
  by (auto simp: has_shape_def diagonal_flip_def list_all_iff)

lemma update_absent: "k \<notin> fst ` set al \<Longrightarrow> AList.update k v al = al @ [(k, v)]"
  by (induction al) auto

lemma dict_fold_distinct:
  "distinct (map fst (acc @ xs)) \<Longrightarrow>
   foldl (\<lambda>d (k, v). AList.update k v d) acc xs = acc @ xs"
proof (induction xs arbitrary: acc)
  case Nil
  then show ?case by simp
next
  case (Cons x xs)
  obtain k v where x: "x = (k, v)" by (cases x)
  from Cons.prems x have "k \<notin> fst ` set acc" by auto
  then have u: "AList.update k v acc = acc @ [(k, v)]" by (rule update_absent)
  from Cons.prems x have "distinct (map fst ((acc @ [(k, v)]) @ xs))" by simp
  from Cons.IH[OF this] u x show ?case by simp
qed

lemma dict_of_distinct: "distinct (map fst xs) \<Longrightarrow> dict_of xs = xs"
  using dict_fold_distinct[of "[]" xs] by (simp add: dict_of_def)

lemma zerg_type_map_distinct:
  assumes "distinct (zerg_type_list tid)"
  shows "zerg_type_map tid =
     [(tid ZERG_DRONE, 0), (tid ZERG_ZERGLING, 1), (tid ZERG_ROACH, 2),
      (tid ZERG_HYDRALISK, 3), (tid ZERG_OVERLORD, 4), (tid ZERG_OVERSEER, 5),
      (tid ZERG_HATCHERY, 6), (tid ZERG_LAIR, 6), (tid ZERG_HIVE, 6),
      (tid ZERG_EXTRACTOR, 7), (tid ZERG_QUEEN, 8), (tid ZERG_RAVAGER, 9),
      (tid ZERG_BANELING, 10)]"
proof -
  let ?listed = "[ZERG_DRONE, ZERG_ZERGLING, ZERG_ROACH, ZERG_HYDRALISK, ZERG_OVERLORD,
      ZERG_OVERSEER, ZERG_QUEEN, ZERG_CHANGELINGZERGLING, ZERG_RAVAGER, ZERG_EGG,
      ZERG_EVOLUTIONCHAMBER, ZERG_BANELING, ZERG_BROODLING, ZERG_LARVA, ZERG_HATCHERY,
      ZERG_LAIR, ZERG_HIVE, ZERG_BANELINGNEST, ZERG_SPAWNINGPOOL, ZERG_ROACHWARREN,
      ZERG_HYDRALISKDEN, ZERG_EXTRACTOR]"
  let ?mapped = "[ZERG_DRONE, ZERG_ZERGLING, ZERG_ROACH, ZERG_HYDRALISK, ZERG_OVERLORD,
      ZERG_OVERSEER, ZERG_HATCHERY, ZERG_LAIR, ZERG_HIVE, ZERG_EXTRACTOR, ZERG_QUEEN,
      ZERG_RAVAGER, ZERG_BANELING]"
  have "zerg_type_list tid = map tid ?listed" by (simp add: zerg_type_list_def)
  with assms have "inj_on tid (set ?listed)" by (simp only: distinct_map)
  moreover have "set ?mapped \<subseteq> set ?listed" by simp
  ultimately have "inj_on tid (set ?mapped)" by (rule inj_on_subset)
  moreover have "distinct ?mapped" by simp
  ultimately have "distinct (map tid ?mapped)" by (simp only: distinct_map simp_thms)
  then have "distinct (map fst
     [(tid ZERG_DRONE, 0 :: int), (tid ZERG_ZERGLING, 1), (tid ZERG_ROACH, 2),
      (tid ZERG_HYDRALISK, 3), (tid ZERG_OVERLORD, 4), (tid ZERG_OVERSEER, 5),
      (tid ZERG_HATCHERY, 6), (tid ZERG_LAIR, 6), (tid ZERG_HIVE, 6),
      (tid ZERG_EXTRACTOR, 7), (tid ZERG_QUEEN, 8), (tid ZERG_RAVAGER, 9),
      (tid ZERG_BANELING, 10)])"
    by (simp only: list.map fst_conv)
  then show ?thesis unfolding zerg_type_map_def by (rule dict_of_distinct)
qed

lemma zerg_type_map_max:
  assumes "distinct (zerg_type_list tid)"
  shows "zerg_type_map tid \<noteq> [] \<and> Max (set (map snd (zerg_type_map tid))) = 10"
  unfolding zerg_type_map_distinct[OF assms] by simp

lemma update_present_length:
  "k \<in> fst ` set al \<Longrightarrow> length (AList.update k v al) = length al"
  by (induction al) auto

lemma unit_count_loop_length: "length (unit_count_loop us count) = length count"
proof (induction us arbitrary: count)
  case Nil
  then show ?case by simp
next
  case (Cons u us)
  show ?case
  proof (cases "map_of count (unit_type u)")
    case None
    with Cons show ?thesis by simp
  next
    case (Some n)
    then have "unit_type u \<in> fst ` set count" by (auto dest: map_of_SomeD intro: rev_image_eqI)
    then have "length (AList.update (unit_type u) (n + 1) count) = length count"
      by (rule update_present_length)
    with Some Cons show ?thesis by simp
  qed
qed

lemma unit_count_generate_length:
  "distinct types \<Longrightarrow> length (unit_count_generate_features types us) = length types"
proof -
  assume "distinct types"
  then have "distinct (map fst (map (\<lambda>t. (t, 0 :: nat)) types))" by (simp add: comp_def)
  from dict_of_distinct[OF this] show ?thesis
    by (simp add: unit_count_generate_features_def unit_count_loop_length)
qed

lemma unit_count_features_length:
  "distinct types \<Longrightarrow> length (unit_count_features types ob) = 4 * length types"
  by (simp add: unit_count_features_def Let_def unit_count_generate_length log10_plus_1_def)

lemma unit_stat_features_length: "length (unit_stat_features ob) = 8"
  by (simp add: unit_stat_features_def Let_def log10_plus_1_def)

lemma player_features_length:
  assumes "length (player ob) = 11"
  shows "\<exists>pf. player_features ob = Inr pf \<and> length pf = 16"
proof -
  let ?pf = "map real_of_int (drop 1 (take (length (player ob) - 2) (player ob)))"
  have l: "length ?pf = 8" using assms by simp
  then have "\<exists>sc. broadcast_div ?pf [1000, 1000, 10, 10, 10, 10, 10, 10] = Inr sc
      \<and> length sc = 8"
    by (simp add: broadcast_div_def)
  then obtain sc where "broadcast_div ?pf [1000, 1000, 10, 10, 10, 10, 10, 10] = Inr sc"
    "length sc = 8" by blast
  with l show ?thesis by (simp add: player_features_def Let_def log10_plus_1_def)
qed

lemma zerg_observation_space_value:
  assumes "distinct (zerg_type_list tid)"
  shows "zerg_observation_space (zerg_init tid res fl pos masked) = Inr ([25, res, res], [112])"
  using zerg_type_map_max[OF assms]
  by (simp add: zerg_observation_space_def zerg_init_def unit_type_num_channels_def
      unit_stat_num_dims_def unit_count_num_dims_def player_num_dims_def zerg_type_list_def)

text \<open>
  Claim C10. Without an action mask, every pair that \<open>_observation\<close> returns has the
  shapes of the declared observation space: the spatial array has 25 channels (3 of
  \<open>PlayerRelative3DFeature\<close> and 22 of \<open>UnitType3DFeature\<close>, twice the largest value
  10 of the type map plus one) of \<open>resolution\<close> rows of \<open>resolution\<close> numbers, and the
  nonspatial vector has 112 entries (8, 88 and 16). The raw observation is one of
  pysc2: its player vector has eleven entries; and the 22 listed unit types have
  different numbers.
\<close>

theorem zerg_observation_shape:
  assumes "distinct (zerg_type_list tid)" and "length (player ob) = 11"
    and "zerg_observation (zerg_init tid res fl pos False) ob action_mask
           = Inr (spatial_feat, nonspatial_feat, m)"
  shows "zerg_observation_space (zerg_init tid res fl pos False) = Inr ([25, res, res], [112])
       \<and> 0 < res
       \<and> has_shape 25 (nat res) spatial_feat
       \<and> length nonspatial_feat = 112
       \<and> m = None"
proof -
  let ?w = "zerg_init tid res fl pos False"
  have w: "resolution ?w = res" "type_map ?w = zerg_type_map tid"
    "type_list ?w = zerg_type_list tid" "\<not> maskable ?w" "flip ?w = fl"
    by (simp_all add: zerg_init_def)
  from assms(3) w obtain pr where pr: "player_relative_features res world_size ob = Inr pr"
    by (cases "player_relative_features res world_size ob") (simp_all add: zerg_observation_def)
  from assms(3) w pr obtain ut where
    ut: "unit_type_features (zerg_type_map tid) res world_size ob = Inr ut"
    by (cases "unit_type_features (zerg_type_map tid) res world_size ob")
       (simp_all add: zerg_observation_def)
  from player_features_length[OF assms(2)] obtain pf where
    pf: "player_features ob = Inr pf" and lpf: "length pf = 16" by blast
  from assms(3) w pr ut pf
  have sp: "spatial_feat = (if fl then diagonal_flip ?w (pr @ ut) else pr @ ut)"
    and ns: "nonspatial_feat = unit_stat_features ob
               @ unit_count_features (zerg_type_list tid) ob @ pf"
    and m: "m = None"
    by (simp_all add: zerg_observation_def Let_def)
  from player_relative_features_shape[OF pr] have r: "0 < res" and s1: "has_shape 3 (nat res) pr"
    by simp_all
  from unit_type_features_shape[OF ut] zerg_type_map_max[OF assms(1)]
  have s2: "has_shape 22 (nat res) ut" by simp
  from has_shape_append[OF s1 s2] have "has_shape 25 (nat res) (pr @ ut)" by simp
  then have S: "has_shape 25 (nat res) spatial_feat"
    unfolding sp by (simp add: diagonal_flip_shape)
  have "length (zerg_type_list tid) = 22" by (simp add: zerg_type_list_def)
  with unit_count_features_length[OF assms(1), of ob] unit_stat_features_length[of ob] lpf
  have N: "length nonspatial_feat = 112" unfolding ns by simp
  from zerg_observation_space_value[OF assms(1)] r S N m show ?thesis by simp
qed

text \<open>
  The example observation at resolution 2, for player 0 (the array is flipped): the own
  drone is in channels 0 and 3, the enemy zergling in channels 1 and 15, the neutral
  unit in channel 2.
\<close>

theorem zerg_observation_shape_witness:
  "distinct (zerg_type_list example_tid) \<and> length (player example_observation) = 11
   \<and> (\<exists>n. zerg_observation (zerg_init example_tid 2 True 0 False) example_observation
             (None :: unit option)
           = Inr ([[[0, 1], [0, 0]],
        [[0, 0], [1, 0]],
        [[0, 0], [1, 0]],
        [[0, 1], [0, 0]],
        [[0, 0], [0, 0]],
        [[0, 0], [0, 0]],
        [[0, 0], [0, 0]],
        [[0, 0], [0, 0]],
        [[0, 0], [0, 0]],
        [[0, 0], [0, 0]],
        [[0, 0], [0, 0]],
        [[0, 0], [0, 0]],
        [[0, 0], [0, 0]],
        [[0, 0], [0, 0]],
        [[0, 0], [0, 0]],
        [[0, 0], [1, 0]],
        [[0, 0], [0, 0]],
        [[0, 0], [0, 0]],
        [[0, 0], [0, 0]],
        [[0, 0], [0, 0]],
        [[0, 0], [0, 0]],
        [[0, 0], [0, 0]],
        [[0, 0], [0, 0]],
        [[0, 0], [0, 0]],
        [[0, 0], [0, 0]]], n, None)
         \<and> length n = 112)
   \<and> has_shape 25 2
        [[[0, 1], [0, 0]],
        [[0, 0], [1, 0]],
        [[0, 0], [1, 0]],
        [[0, 1], [0, 0]],
        [[0, 0], [0, 0]],
        [[0, 0], [0, 0]],
        [[0, 0], [0, 0]],
        [[0, 0], [0, 0]],
        [[0, 0], [0, 0]],
        [[0, 0], [0, 0]],
        [[0, 0], [0, 0]],
        [[0, 0], [0, 0]],
        [[0, 0], [0, 0]],
        [[0, 0], [0, 0]],
        [[0, 0], [0, 0]],
        [[0, 0], [1, 0]],
        [[0, 0], [0, 0]],
        [[0, 0], [0, 0]],
        [[0, 0], [0, 0]],
        [[0, 0], [0, 0]],
        [[0, 0], [0, 0]],
        [[0, 0], [0, 0]],
        [[0, 0], [0, 0]],
        [[0, 0], [0, 0]],
        [[0, 0], [0, 0]]]
   \<and> zerg_observation_space (zerg_init example_tid 2 True 0 False) = Inr ([25, 2, 2], [112])"
proof -
  have h1: "distinct (zerg_type_list example_tid)"
    by (simp add: zerg_type_list_def)
  have h2: "length (player example_observation) = 11"
    by (simp add: example_observation_def)
  have "\<exists>n. zerg_observation (zerg_init example_tid 2 True 0 False) example_observation
      (None :: unit option) = Inr
     ([[[0, 1], [0, 0]],
        [[0, 0], [1, 0]],
        [[0, 0], [1, 0]],
        [[0, 1], [0, 0]],
        [[0, 0], [0, 0]],
        [[0, 0], [0, 0]],
        [[0, 0], [0, 0]],
        [[0, 0], [0, 0]],
        [[0, 0], [0, 0]],
        [[0, 0], [0, 0]],
        [[0, 0], [0, 0]],
        [[0, 0], [0, 0]],
        [[0, 0], [0, 0]],
        [[0, 0], [0, 0]],
        [[0, 0], [0, 0]],
        [[0, 0], [1, 0]],
        [[0, 0], [0, 0]],
        [[0, 0], [0, 0]],
        [[0, 0], [0, 0]],
        [[0, 0], [0, 0]],
        [[0, 0], [0, 0]],
        [[0, 0], [0, 0]],
        [[0, 0], [0, 0]],
        [[0, 0], [0, 0]],
        [[0, 0], [0, 0]]], n, None)"
    using zerg_type_map_distinct[OF h1]
    by (simp add: zerg_observation_def zerg_init_def example_observation_def Let_def
        player_relative_features_def player_relative_generate_features_def zeros3_def
        units_of_def world_size_def add_at_def np_index_def numeral_2_eq_2
        unit_type_features_def unit_type_generate_features_def
        player_features_def broadcast_div_def diagonal_flip_def eval_nat_numeral)
  then obtain n where e: "zerg_observation (zerg_init example_tid 2 True 0 False)
      example_observation (None :: unit option) = Inr
     ([[[0, 1], [0, 0]],
        [[0, 0], [1, 0]],
        [[0, 0], [1, 0]],
        [[0, 1], [0, 0]],
        [[0, 0], [0, 0]],
        [[0, 0], [0, 0]],
        [[0, 0], [0, 0]],
        [[0, 0], [0, 0]],
        [[0, 0], [0, 0]],
        [[0, 0], [0, 0]],
        [[0, 0], [0, 0]],
        [[0, 0], [0, 0]],
        [[0, 0], [0, 0]],
        [[0, 0], [0, 0]],
        [[0, 0], [0, 0]],
        [[0, 0], [1, 0]],
        [[0, 0], [0, 0]],
        [[0, 0], [0, 0]],
        [[0, 0], [0, 0]],
        [[0, 0], [0, 0]],
        [[0, 0], [0, 0]],
        [[0, 0], [0, 0]],
        [[0, 0], [0, 0]],
        [[0, 0], [0, 0]],
        [[0, 0], [0, 0]]], n, None)" by blast
  from zerg_observation_shape[OF h1 h2 e] h1 h2 e show ?thesis by simp
qed

end
